theory Spec2Isabelle
  imports Complex_Main "HOL-Library.Log_Nat"
begin

section \<open>Execution context store (AsyncHooksCLS, src/unnamed/part_005)\<close>

text \<open>
  The class keeps \<^verbatim>\<open>contexts: {[id: number]: Reference<Context>}\<close>, a dictionary from
  AsyncResource ids to \<^emph>\<open>Reference\<close> objects \<^verbatim>\<open>{value: T}\<close>. References are mutable and
  shared between entries (\<^verbatim>\<open>this.contexts[id] = this.contexts[triggerId]\<close> copies the
  pointer, \<^verbatim>\<open>current.value = value\<close> writes through it), so the model has an explicit
  store of Reference objects:
  \<^item> \<open>slot\<close> is what \<^verbatim>\<open>this.contexts[k]\<close> evaluates to: \<^verbatim>\<open>undefined\<close> or the address
    of a Reference;
  \<^item> \<open>contexts\<close> holds the own keys of the dictionary (a key may be present with the
    value \<^verbatim>\<open>undefined\<close>, which the init hook and the \<^verbatim>\<open>finally\<close> blocks do write);
  \<^item> \<open>refs\<close> is the list of all Reference objects allocated so far: the object at
    address \<open>r\<close> has \<^verbatim>\<open>.value\<close> equal to \<open>refs ! r\<close>, and \<^verbatim>\<open>{value: v}\<close> allocates
    address \<open>length refs\<close>.
  \<^verbatim>\<open>this.ah.executionAsyncId()\<close> is supplied by the runtime; every operation takes it
  as its first argument \<open>eid\<close>. The runtime keeps it fixed during a synchronous call,
  which is why a callee receives the caller's \<open>eid\<close>.
\<close>

datatype slot = Undefined | Ref nat

record 'c cls =
  defaultContext :: 'c
  contexts :: "nat \<rightharpoonup> slot"
  refs :: "'c list"
  enabled :: bool

text \<open>\<^verbatim>\<open>this.contexts[k]\<close>: a missing key reads as \<^verbatim>\<open>undefined\<close>.\<close>

definition lookup :: "'c cls \<Rightarrow> nat \<Rightarrow> slot" where
  "lookup s k = (case contexts s k of None \<Rightarrow> Undefined | Some v \<Rightarrow> v)"

text \<open>\<^verbatim>\<open>this.contexts[k] = v\<close> and \<^verbatim>\<open>delete this.contexts[k]\<close>.\<close>

definition assign :: "nat \<Rightarrow> slot \<Rightarrow> 'c cls \<Rightarrow> 'c cls" where
  "assign k v s = s\<lparr>contexts := (contexts s)(k \<mapsto> v)\<rparr>"

definition delete :: "nat \<Rightarrow> 'c cls \<Rightarrow> 'c cls" where
  "delete k s = s\<lparr>contexts := (contexts s)(k := None)\<rparr>"

text \<open>The constructor: empty dictionary, hook created but not enabled.\<close>

definition AsyncHooksCLS :: "'c \<Rightarrow> 'c cls" where
  "AsyncHooksCLS d = \<lparr>defaultContext = d, contexts = Map.empty, refs = [], enabled = False\<rparr>"

subsection \<open>The hook callbacks (lines 59-93)\<close>

text \<open>
  \<^verbatim>\<open>init(id, type, triggerId, resource)\<close> copies a dictionary entry: that of the unit
  executing now when \<^verbatim>\<open>type === 'PROMISE'\<close>, that of the trigger otherwise. The copied
  value may be \<^verbatim>\<open>undefined\<close>. \<^verbatim>\<open>destroy(id)\<close> deletes the key.
\<close>

definition init :: "nat \<Rightarrow> nat \<Rightarrow> string \<Rightarrow> nat \<Rightarrow> 'c cls \<Rightarrow> 'c cls" where
  "init eid ident type triggerId s =
     (if type = ''PROMISE'' then assign ident (lookup s eid) s
      else assign ident (lookup s triggerId) s)"

definition destroy :: "nat \<Rightarrow> 'c cls \<Rightarrow> 'c cls" where
  "destroy ident s = delete ident s"

text \<open>
  The events the async-hooks runtime reports, and their delivery: the runtime calls the
  callbacks of a hook only while the hook is enabled; \<^verbatim>\<open>enable()\<close> and \<^verbatim>\<open>disable()\<close>
  switch the hook together with the flag \<open>enabled\<close>.
\<close>

datatype hook_event = Init nat string nat | Destroy nat

definition observe :: "nat \<Rightarrow> hook_event \<Rightarrow> 'c cls \<Rightarrow> 'c cls" where
  "observe eid ev s =
     (if enabled s then
        (case ev of Init ident type triggerId \<Rightarrow> init eid ident type triggerId s
                  | Destroy ident \<Rightarrow> destroy ident s)
      else s)"

definition isEnabled :: "'c cls \<Rightarrow> bool" where
  "isEnabled s = enabled s"

definition enable :: "'c cls \<Rightarrow> 'c cls" where
  "enable s = s\<lparr>contexts := Map.empty, enabled := True\<rparr>"

definition disable :: "'c cls \<Rightarrow> 'c cls" where
  "disable s = s\<lparr>contexts := Map.empty, enabled := False\<rparr>"

subsection \<open>getContext and setContext (lines 112-128)\<close>

definition getContext :: "nat \<Rightarrow> 'c cls \<Rightarrow> 'c" where
  "getContext eid s =
     (case lookup s eid of
        Ref r \<Rightarrow> refs s ! r
      | Undefined \<Rightarrow> defaultContext s)"

text \<open>\<^verbatim>\<open>{value: v}\<close>: a new Reference object; its address is returned with the store.\<close>

definition new_ref :: "'c \<Rightarrow> 'c cls \<Rightarrow> nat \<times> 'c cls" where
  "new_ref v s = (length (refs s), s\<lparr>refs := refs s @ [v]\<rparr>)"

definition setContext :: "nat \<Rightarrow> 'c \<Rightarrow> 'c cls \<Rightarrow> 'c cls" where
  "setContext eid v s =
     (case lookup s eid of
        Ref r \<Rightarrow> s\<lparr>refs := (refs s)[r := v]\<rparr>
      | Undefined \<Rightarrow> (case new_ref v s of (r, s') \<Rightarrow> assign eid (Ref r) s'))"

subsection \<open>Callables\<close>

text \<open>
  A JavaScript function value as far as this class can tell functions apart: the hidden
  marker property \<^verbatim>\<open>[WRAPPED]\<close>, the \<^verbatim>\<open>length\<close> property, and what a call does. A call
  happens on some executing unit, receives the argument list, may read and change the
  context store, and either returns a value (\<open>Inr\<close>) or throws (\<open>Inl\<close>).
\<close>

datatype ('c, 'a, 'e, 'r) func =
  Func (WRAPPED: bool) (flength: nat)
       (invoke: "nat \<Rightarrow> 'a list \<Rightarrow> 'c cls \<Rightarrow> ('e + 'r) \<times> 'c cls")

subsection \<open>runWithNewContext (lines 130-145)\<close>

text \<open>
  The \<^verbatim>\<open>try ... finally\<close>: whatever \<^verbatim>\<open>fn()\<close> does, the assignment
  \<^verbatim>\<open>this.contexts[id] = oldContext\<close> runs on the store \<open>fn\<close> left behind, and then the
  return value or the exception of \<open>fn\<close> is passed on.
\<close>

definition runWithNewContext ::
  "nat \<Rightarrow> ('c, 'a, 'e, 'r) func \<Rightarrow> 'c cls \<Rightarrow> ('e + 'r) \<times> 'c cls" where
  "runWithNewContext eid fn s =
     (let ident = eid;
          oldContext = lookup s ident;
          (r, s1) = new_ref (defaultContext s) s;
          s2 = assign ident (Ref r) s1;
          (res, s3) = invoke fn eid [] s2
      in (res, assign ident oldContext s3))"

subsection \<open>bindWithCurrentContext (lines 147-187)\<close>

text \<open>
  The wrapper closes over \<open>boundContext\<close> (the address of a Reference, not its value)
  and over \<open>fn\<close>. It is created without touching the store.
\<close>

definition contextWrapper ::
  "nat \<Rightarrow> ('c, 'a, 'e, 'r) func \<Rightarrow> nat \<Rightarrow> 'a list \<Rightarrow> 'c cls \<Rightarrow> ('e + 'r) \<times> 'c cls" where
  "contextWrapper boundContext fn eid args s =
     (let ident = eid;
          oldContext = lookup s ident;
          s1 = assign ident (Ref boundContext) s;
          (res, s2) = invoke fn eid args s1
      in (res, assign ident oldContext s2))"

definition bindWithCurrentContext ::
  "nat \<Rightarrow> ('c, 'a, 'e, 'r) func \<Rightarrow> 'c cls \<Rightarrow> ('c, 'a, 'e, 'r) func" where
  "bindWithCurrentContext eid fn s =
     (if WRAPPED fn then fn
      else (case lookup s eid of
              Undefined \<Rightarrow> fn
            | Ref boundContext \<Rightarrow> Func True (flength fn) (contextWrapper boundContext fn)))"

subsection \<open>Client programs\<close>

text \<open>
  Code that runs synchronously on one unit and uses the store only through
  \<^verbatim>\<open>setContext\<close> and \<^verbatim>\<open>runWithNewContext\<close>, arbitrarily nested; any step may
  throw, which ends every enclosing sequence up to the nearest \<^verbatim>\<open>finally\<close>.
\<close>

datatype 'c cmd = SetContext 'c | RunWithNewContext "'c cmd list" | Throw string

fun exec :: "nat \<Rightarrow> 'c cmd \<Rightarrow> 'c cls \<Rightarrow> (string + unit) \<times> 'c cls"
  and exec_seq :: "nat \<Rightarrow> 'c cmd list \<Rightarrow> 'c cls \<Rightarrow> (string + unit) \<times> 'c cls" where
  "exec eid (SetContext v) s = (Inr (), setContext eid v s)"
| "exec eid (Throw e) s = (Inl e, s)"
| "exec eid (RunWithNewContext body) s =
     runWithNewContext eid (Func False 0 (\<lambda>u (args :: unit list) st. exec_seq u body st)) s"
| "exec_seq eid [] s = (Inr (), s)"
| "exec_seq eid (c # cs) s =
     (case exec eid c s of
        (Inl e, s') \<Rightarrow> (Inl e, s')
      | (Inr _, s') \<Rightarrow> exec_seq eid cs s')"

text \<open>
  Every Reference named by the dictionary has been allocated. The relation \<open>evolves\<close>
  bounds what code running on unit \<open>e\<close> does to the store: References are only
  added, other units' entries stay, an existing Reference other than the one \<open>e\<close> is
  bound to keeps its value, and \<open>e\<close> stays bound to its Reference (or, having none,
  gets none or a new one).
\<close>

definition wf_cls :: "'c cls \<Rightarrow> bool" where
  "wf_cls s = (\<forall>k r. contexts s k = Some (Ref r) \<longrightarrow> r < length (refs s))"

definition evolves :: "nat \<Rightarrow> 'c cls \<Rightarrow> 'c cls \<Rightarrow> bool" where
  "evolves e s s' =
     (wf_cls s' \<and> length (refs s) \<le> length (refs s') \<and> defaultContext s' = defaultContext s
      \<and> (\<forall>j. j \<noteq> e \<longrightarrow> contexts s' j = contexts s j)
      \<and> (\<forall>r. r < length (refs s) \<and> lookup s e \<noteq> Ref r \<longrightarrow> refs s' ! r = refs s ! r)
      \<and> (case lookup s e of
            Ref r \<Rightarrow> lookup s' e = Ref r
          | Undefined \<Rightarrow> lookup s' e = Undefined
                          \<or> (\<exists>r. length (refs s) \<le> r \<and> lookup s' e = Ref r)))"

section \<open>Trace policy (tracing-policy, second document of src/src/plugins/plugin-knex.js)\<close>

subsection \<open>JavaScript numbers\<close>

text \<open>
  Sampling rates, millisecond timestamps and the trace window are JavaScript numbers:
  IEEE 754 binary64 values. A number is NaN, an infinity, or a finite value, held as the
  rational it denotes. Arithmetic computes the exact rational result and rounds it to
  the nearest binary64 value, ties to the even significand (\<open>round64\<close>). The one thing
  left out is the sign of zero: \<open>-0\<close> is identified with \<open>0\<close>. The code below only
  compares numbers, adds a window to a timestamp and divides 1000 by a rate, and the
  policy constructor tests \<^verbatim>\<open>samplingRate === 0\<close>, which holds of both zeros, before it
  constructs a sampler; so no division by a zero is reached through a policy, and
  nothing else tells the two zeros apart.
\<close>

datatype number = NaN | PInf | NInf | Fin rat

text \<open>For \<open>x > 0\<close>, \<open>ilog2 x\<close> is the integer \<open>E\<close> with \<open>2\<^sup>E \<le> x < 2\<^sup>E\<^sup>+\<^sup>1\<close>.\<close>

definition ilog2 :: "rat \<Rightarrow> int" where
  "ilog2 x =
     (case quotient_of x of (p, q) \<Rightarrow>
        (let d = bitlen p - bitlen q
         in if 2 powi d \<le> x then d else d - 1))"

definition round_half_even :: "rat \<Rightarrow> int" where
  "round_half_even q =
     (let f = \<lfloor>q\<rfloor>; r = q - of_int f
      in if r < 1 / 2 then f else if 1 / 2 < r then f + 1 else if even f then f else f + 1)"

text \<open>
  Rounding to binary64: the significand has 53 bits, so the result is a multiple \<open>n\<close> of
  \<open>2\<^sup>e\<close> with \<open>e\<close> 52 below the exponent of \<open>x\<close>, and never below \<open>-1074\<close> (subnormal
  values). The result overflows to an infinity when it reaches \<open>2\<^sup>1\<^sup>0\<^sup>2\<^sup>4\<close>, that is when
  \<open>e > 971\<close>, or \<open>e = 971\<close> and the significand was rounded up to \<open>2\<^sup>5\<^sup>3\<close>.
\<close>

definition round64 :: "rat \<Rightarrow> number" where
  "round64 x =
     (if x = 0 then Fin 0
      else (let e = max (ilog2 \<bar>x\<bar> - 52) (- 1074);
                n = round_half_even (x / 2 powi e)
            in if 971 < e \<or> (e = 971 \<and> 2 ^ 53 \<le> \<bar>n\<bar>) then (if 0 < x then PInf else NInf)
               else Fin (of_int n * 2 powi e)))"

text \<open>The operators \<^verbatim>\<open>+\<close>, \<^verbatim>\<open>/\<close>, \<^verbatim>\<open><\<close>, \<^verbatim>\<open>>=\<close> and \<^verbatim>\<open>===\<close> on numbers.\<close>

fun js_add :: "number \<Rightarrow> number \<Rightarrow> number" where
  "js_add (Fin a) (Fin b) = round64 (a + b)"
| "js_add NaN _ = NaN"
| "js_add _ NaN = NaN"
| "js_add PInf NInf = NaN"
| "js_add NInf PInf = NaN"
| "js_add PInf _ = PInf"
| "js_add _ PInf = PInf"
| "js_add NInf _ = NInf"
| "js_add _ NInf = NInf"

fun js_div :: "number \<Rightarrow> number \<Rightarrow> number" where
  "js_div (Fin a) (Fin b) =
     (if b = 0 then (if a = 0 then NaN else if 0 < a then PInf else NInf)
      else round64 (a / b))"
| "js_div NaN _ = NaN"
| "js_div _ NaN = NaN"
| "js_div (Fin a) _ = Fin 0"
| "js_div PInf (Fin b) = (if 0 \<le> b then PInf else NInf)"
| "js_div NInf (Fin b) = (if 0 \<le> b then NInf else PInf)"
| "js_div _ _ = NaN"

fun js_less :: "number \<Rightarrow> number \<Rightarrow> bool" where
  "js_less (Fin a) (Fin b) = (a < b)"
| "js_less NaN _ = False"
| "js_less _ NaN = False"
| "js_less PInf _ = False"
| "js_less _ NInf = False"
| "js_less _ _ = True"


fun js_eq :: "number \<Rightarrow> number \<Rightarrow> bool" where
  "js_eq (Fin a) (Fin b) = (a = b)"
| "js_eq PInf PInf = True"
| "js_eq NInf NInf = True"
| "js_eq _ _ = False"

text \<open>A whole number of milliseconds, as \<^verbatim>\<open>Date.now()\<close> yields it.\<close>

definition ms :: "int \<Rightarrow> number" where
  "ms k = Fin (of_int k)"

subsection \<open>Predicates\<close>

text \<open>
  A \<^verbatim>\<open>TracePolicyPredicate<T>\<close> is either an object literal
  \<^verbatim>\<open>{shouldTrace: () => b}\<close> with a fixed answer, or an instance of one of the classes.
\<close>

datatype 'p predicate = Const bool | Obj 'p

subsection \<open>Sampler (lines 85-104)\<close>

text \<open>The clock value \<^verbatim>\<open>Date.now()\<close> read by the constructor is the argument \<open>now\<close>.\<close>

record Sampler =
  traceWindow :: number
  nextTraceStart :: number

definition Sampler_new :: "number \<Rightarrow> number \<Rightarrow> Sampler" where
  "Sampler_new now samplesPerSecond =
     (let samplesPerSecond' = (if js_less (Fin 1000) samplesPerSecond then Fin 1000
                               else samplesPerSecond)
      in \<lparr>traceWindow = js_div (Fin 1000) samplesPerSecond', nextTraceStart = now\<rparr>)"

text \<open>The decision and the sampler after it (the watermark is a mutable field).\<close>

definition Sampler_shouldTrace :: "Sampler \<Rightarrow> number \<Rightarrow> bool \<times> Sampler" where
  "Sampler_shouldTrace sm dateMillis =
     (if js_less dateMillis (nextTraceStart sm) then (False, sm)
      else (True, sm\<lparr>nextTraceStart := js_add dateMillis (traceWindow sm)\<rparr>))"

subsection \<open>URLFilter (lines 106-115)\<close>

text \<open>
  A deny entry is a string or a regular expression. \<^verbatim>\<open>url.match(candidate)\<close> belongs to
  the JavaScript runtime (it also turns a string candidate into a pattern); whether it
  finds a match is the parameter \<open>matches\<close>.
\<close>

datatype 'rx candidate = Str string | RegExp 'rx

record 'rx URLFilter =
  filterUrls :: "'rx candidate list"

definition URLFilter_new :: "'rx candidate list \<Rightarrow> 'rx URLFilter" where
  "URLFilter_new urls = \<lparr>filterUrls = urls\<rparr>"

definition URLFilter_shouldTrace ::
  "(string \<Rightarrow> 'rx candidate \<Rightarrow> bool) \<Rightarrow> 'rx URLFilter \<Rightarrow> string \<Rightarrow> bool" where
  "URLFilter_shouldTrace matches f url =
     (\<not> list_ex (\<lambda>candidate.
            (case candidate of Str c \<Rightarrow> c = url | RegExp _ \<Rightarrow> False) \<or> matches url candidate)
          (filterUrls f))"

subsection \<open>HTTPMethodFilter (lines 117-133)\<close>

text \<open>
  \<^verbatim>\<open>String.prototype.toLowerCase\<close> on the ASCII letters, which is all that HTTP verbs
  contain. \<^verbatim>\<open>METHODS\<close> is the verb list exported by Node's \<^verbatim>\<open>http\<close> module, a
  parameter of the constructor here.
\<close>

definition toLowerCase :: "string \<Rightarrow> string" where
  "toLowerCase = map (\<lambda>c. if 65 \<le> (of_char c :: nat) \<and> (of_char c :: nat) \<le> 90
                          then char_of ((of_char c :: nat) + 32) else c)"

record HTTPMethodFilter =
  filterMethods :: "string list"

definition HTTPMethodFilter_new :: "string list \<Rightarrow> string list \<Rightarrow> HTTPMethodFilter" where
  "HTTPMethodFilter_new METHODS methods =
     (let lowercaseMethods = map toLowerCase METHODS
      in \<lparr>filterMethods = filter (\<lambda>method. method \<in> set lowercaseMethods)
                                  (map toLowerCase methods)\<rparr>)"

text \<open>
  The argument is \<open>None\<close> when the caller has no method to pass (\<^verbatim>\<open>undefined\<close>);
  \<^verbatim>\<open>!method\<close> holds for \<^verbatim>\<open>undefined\<close> and for the empty string.
\<close>

definition HTTPMethodFilter_shouldTrace :: "HTTPMethodFilter \<Rightarrow> string option \<Rightarrow> bool" where
  "HTTPMethodFilter_shouldTrace f method =
     (case method of
        None \<Rightarrow> True
      | Some m \<Rightarrow> if m = [] then True else toLowerCase m \<notin> set (filterMethods f))"

subsection \<open>TracePolicy (lines 156-206)\<close>

record 'rx TracePolicyConfig =
  samplingRate :: number
  ignoreUrls :: "'rx candidate list"
  ignoreMethods :: "string list"

record 'rx TracePolicy =
  sampler :: "Sampler predicate"
  urlFilter :: "'rx URLFilter predicate"
  methodFilter :: "HTTPMethodFilter predicate"

definition TracePolicy_new ::
  "number \<Rightarrow> string list \<Rightarrow> 'rx TracePolicyConfig \<Rightarrow> 'rx TracePolicy" where
  "TracePolicy_new now METHODS config =
     \<lparr>sampler =
        (if js_eq (samplingRate config) (Fin 0) then Const True
         else if js_less (samplingRate config) (Fin 0) then Const False
         else Obj (Sampler_new now (samplingRate config))),
      urlFilter =
        (if length (ignoreUrls config) = 0 then Const True
         else Obj (URLFilter_new (ignoreUrls config))),
      methodFilter =
        (if length (ignoreMethods config) = 0 then Const True
         else Obj (HTTPMethodFilter_new METHODS (ignoreMethods config)))\<rparr>"

text \<open>
  The constructor as its caller sees it: an exception (\<open>Inl\<close>) or the new instance
  together with the lines written to a log while constructing. The constructors above
  contain no \<^verbatim>\<open>throw\<close> and are given no logger.
\<close>

definition TracePolicy_construct ::
  "number \<Rightarrow> string list \<Rightarrow> 'rx TracePolicyConfig \<Rightarrow> string + (string list \<times> 'rx TracePolicy)" where
  "TracePolicy_construct now METHODS config = Inr ([], TracePolicy_new now METHODS config)"

text \<open>Calling \<^verbatim>\<open>shouldTrace\<close> on each kind of predicate.\<close>

definition sampler_shouldTrace :: "Sampler predicate \<Rightarrow> number \<Rightarrow> bool \<times> Sampler predicate" where
  "sampler_shouldTrace p timestamp =
     (case p of
        Const b \<Rightarrow> (b, Const b)
      | Obj sm \<Rightarrow> (case Sampler_shouldTrace sm timestamp of (b, sm') \<Rightarrow> (b, Obj sm')))"

definition urlFilter_shouldTrace ::
  "(string \<Rightarrow> 'rx candidate \<Rightarrow> bool) \<Rightarrow> 'rx URLFilter predicate \<Rightarrow> string \<Rightarrow> bool" where
  "urlFilter_shouldTrace matches p url =
     (case p of Const b \<Rightarrow> b | Obj f \<Rightarrow> URLFilter_shouldTrace matches f url)"

definition methodFilter_shouldTrace :: "HTTPMethodFilter predicate \<Rightarrow> string option \<Rightarrow> bool" where
  "methodFilter_shouldTrace p method =
     (case p of Const b \<Rightarrow> b | Obj f \<Rightarrow> HTTPMethodFilter_shouldTrace f method)"

text \<open>
  \<^verbatim>\<open>TracePolicy.shouldTrace\<close>: the sampler is asked first, so its watermark moves
  whatever the two filters answer; the filters are pure, and \<^verbatim>\<open>&&\<close> on them is \<open>\<and>\<close>.
\<close>

definition TracePolicy_shouldTrace ::
  "(string \<Rightarrow> 'rx candidate \<Rightarrow> bool) \<Rightarrow> 'rx TracePolicy \<Rightarrow> number \<Rightarrow> string \<Rightarrow> string option
     \<Rightarrow> bool \<times> 'rx TracePolicy" where
  "TracePolicy_shouldTrace matches policy timestamp url method =
     (case sampler_shouldTrace (sampler policy) timestamp of
        (b, sampler') \<Rightarrow>
          (if b then urlFilter_shouldTrace matches (urlFilter policy) url
                     \<and> methodFilter_shouldTrace (methodFilter policy) method
           else False,
           policy\<lparr>sampler := sampler'\<rparr>))"


fun sampled :: "Sampler predicate \<Rightarrow> int list \<Rightarrow> int list" where
  "sampled p [] = []"
| "sampled p (k # ks) =
     (if fst (sampler_shouldTrace p (ms k))
      then k # sampled (snd (sampler_shouldTrace p (ms k))) ks
      else sampled (snd (sampler_shouldTrace p (ms k))) ks)"

text \<open>
  A construction is rejected loudly when it throws or writes at least one log line.
\<close>

definition rejected_loudly :: "string + (string list \<times> 'a) \<Rightarrow> bool" where
  "rejected_loudly r = (case r of Inl _ \<Rightarrow> True | Inr (logs, _) \<Rightarrow> logs \<noteq> [])"

subsection \<open>Example configurations\<close>

text \<open>
  The number that the literal \<^verbatim>\<open>999.9\<close> denotes (the binary64 value nearest to it), and
  a configuration with a given finite sampling rate and empty deny lists.
\<close>

definition rate_999_9 :: rat where
  "rate_999_9 = 8795213412905779 / 8796093022208"

definition rate_config :: "rat \<Rightarrow> unit TracePolicyConfig" where
  "rate_config r = \<lparr>samplingRate = Fin r, ignoreUrls = [], ignoreMethods = []\<rparr>"

section \<open>Trace writer (src/lib/trace-writer.js and src/unnamed/part_000)\<close>

text \<open>
  The repository holds two editions of \<^verbatim>\<open>TraceWriter\<close>: src/lib/trace-writer.js (suffix
  \<open>_lib\<close> below) and src/unnamed/part_000 (suffix \<open>_part000\<close>). Both are modelled.
\<close>

subsection \<open>Spans and traces\<close>

record TraceSpan =
  name :: string
  spanId :: nat
  parentSpanId :: nat
  startTime :: string
  endTime :: string
  kind :: string
  labels :: "string \<rightharpoonup> string"

text \<open>
  Modelled from the spec: \<^verbatim>\<open>TraceSpan.isClosed\<close> (trace-span.js is not under src/).
  The spec: "end timestamp (unset while open)"; the test of \<^verbatim>\<open>TraceSpan\<close> in
  src/unnamed/part_000 has \<^verbatim>\<open>endTime === ''\<close> and \<^verbatim>\<open>!isClosed()\<close> for a new span.
\<close>

definition isClosed :: "TraceSpan \<Rightarrow> bool" where
  "isClosed sp = (endTime sp \<noteq> '''')"

text \<open>
  Modelled from the spec: \<^verbatim>\<open>TraceSpan.close\<close> (trace-span.js is not under src/). The
  spec: "close(span): set end timestamp, idempotent (repeat calls keep the original end
  time)"; the test has \<^verbatim>\<open>endTime === time.toISOString()\<close> after \<^verbatim>\<open>close()\<close>. The
  argument \<open>now\<close> is the text \<^verbatim>\<open>new Date().toISOString()\<close> read by the call.
\<close>

definition close :: "string \<Rightarrow> TraceSpan \<Rightarrow> TraceSpan" where
  "close now sp = (if endTime sp = '''' then sp\<lparr>endTime := now\<rparr> else sp)"

text \<open>
  Modelled from the spec: \<^verbatim>\<open>TraceSpan.setLabel\<close> (trace-span.js is not under src/). The
  spec: "addLabel(span, key, value): mutate label map"; the test has
  \<^verbatim>\<open>span.labels.a === 'b'\<close> after \<^verbatim>\<open>setLabel('a', 'b')\<close>.
\<close>

definition setLabel :: "string \<Rightarrow> string \<Rightarrow> TraceSpan \<Rightarrow> TraceSpan" where
  "setLabel key val sp = sp\<lparr>labels := (labels sp)(key \<mapsto> val)\<rparr>"

text \<open>
  A trace; \<^verbatim>\<open>trace.project_id\<close> is the property the lib edition assigns,
  \<^verbatim>\<open>trace.projectId\<close> the one the part_000 edition assigns.
\<close>

record Trace =
  traceId :: string
  spans :: "TraceSpan list"
  trace_project_id :: "string option"
  trace_projectId :: "string option"

text \<open>
  Modelled from the spec: \<^verbatim>\<open>SpanData\<close> (span-data.js is not under src/). The writer
  reads \<^verbatim>\<open>spanData.trace\<close>; the \<^verbatim>\<open>SpanData\<close> also owns a span, which is one of the
  span objects of that trace: \<open>span\<close> is the position of that object in
  \<^verbatim>\<open>trace.spans\<close>.
\<close>

record SpanData =
  trace :: Trace
  span :: nat

text \<open>
  Modelled from the spec: \<^verbatim>\<open>SpanData.addLabel\<close> (span-data.js is not under src/). The
  spec: "addLabel(span, key, value): mutate label map"; the label is put on the span of
  the \<^verbatim>\<open>SpanData\<close>. The bounds on the length of keys and values that the spec mentions
  are not modelled. Were \<open>span\<close> not a position of the list, the update would leave
  the list as it is.
\<close>

definition addLabel :: "string \<Rightarrow> string \<Rightarrow> SpanData \<Rightarrow> SpanData" where
  "addLabel key val sd =
     sd\<lparr>trace := (trace sd)\<lparr>spans :=
            (spans (trace sd))[span sd := setLabel key val (spans (trace sd) ! span sd)]\<rparr>\<rparr>"

subsection \<open>The writer's state\<close>

text \<open>
  Configuration values that the code tests for truthiness are optional strings here:
  \<open>None\<close> stands for \<^verbatim>\<open>undefined\<close> (the property is missing), and the empty string is
  falsy as well. The keys of trace-labels.js and the version of package.json are not
  under src/ and are parameters.
\<close>

record Config =
  projectId :: "string option"
  bufferSize :: int
  publishImmediately :: bool
  hostname :: "string option"
  instanceId :: "string option"
  gae_module_name :: "string option"
  gae_module_version :: "string option"
  gae_minor_version :: "string option"

record traceLabels =
  GCE_HOSTNAME :: string
  GCE_INSTANCE_ID :: string
  GAE_MODULE_NAME :: string
  GAE_MODULE_VERSION :: string
  GAE_VERSION :: string
  AGENT_DATA :: string

text \<open>
  The fields \<open>writer_config\<close>, \<open>writer_buffer\<close> and \<open>logged\<close> stand for
  \<^verbatim>\<open>this.config_\<close>, \<^verbatim>\<open>this.buffer_\<close> and what \<^verbatim>\<open>this.logger_\<close> has written. A log
  line: level, message, and the number passed after the message, if any. The
  field \<open>immediates\<close> lists the flushes handed to \<^verbatim>\<open>setImmediate\<close> (by project), which
  run after the caller has returned.
\<close>

type_synonym log_line = "string \<times> string \<times> nat option"

record TraceWriter =
  writer_config :: Config
  writer_buffer :: "Trace list"
  logged :: "log_line list"
  immediates :: "string list"

definition logger :: "string \<Rightarrow> string \<Rightarrow> nat option \<Rightarrow> TraceWriter \<Rightarrow> TraceWriter" where
  "logger level msg arg w = w\<lparr>logged := logged w @ [(level, msg, arg)]\<rparr>"

definition truthy :: "string option \<Rightarrow> bool" where
  "truthy v = (case v of None \<Rightarrow> False | Some s \<Rightarrow> s \<noteq> '''')"

subsection \<open>getProjectNumber\<close>

text \<open>
  \<^verbatim>\<open>utils.getProjectNumber\<close> asks the metadata service; what it passes to its callback
  is the parameter \<open>metadata\<close>: an error (\<open>Inl\<close>) or a project (\<open>Inr\<close>). The functions
  return what \<^verbatim>\<open>callback\<close> receives, with the writer as the callback finds it. The
  model runs the callback as soon as the answer is there; the state the functions take
  is the writer's state at that moment.
\<close>

definition getProjectNumber_lib ::
  "string + string \<Rightarrow> TraceWriter \<Rightarrow> (string + string) \<times> TraceWriter" where
  "getProjectNumber_lib metadata w =
     (if truthy (projectId (writer_config w)) then (Inr (the (projectId (writer_config w))), w)
      else (case metadata of
              Inl err \<Rightarrow> (Inl err, w)
            | Inr project \<Rightarrow>
                (Inr project,
                 (logger ''info'' (''Acquired ProjectId from metadata: '' @ project) None w)
                   \<lparr>writer_config := (writer_config w)\<lparr>projectId := Some project\<rparr>\<rparr>)))"

definition getProjectNumber_part000 ::
  "string + string \<Rightarrow> TraceWriter \<Rightarrow> (string + string) \<times> TraceWriter" where
  "getProjectNumber_part000 metadata w =
     (if truthy (projectId (writer_config w)) then (Inr (the (projectId (writer_config w))), w)
      else (case metadata of
              Inl err \<Rightarrow> (Inl err, w)
            | Inr project \<Rightarrow>
                (Inr project, w\<lparr>writer_config := (writer_config w)\<lparr>projectId := Some project\<rparr>\<rparr>)))"

subsection \<open>queueTrace_\<close>

text \<open>src/lib/trace-writer.js, lines 118-137.\<close>

definition queueTrace_lib :: "string + string \<Rightarrow> Trace \<Rightarrow> TraceWriter \<Rightarrow> TraceWriter" where
  "queueTrace_lib metadata tr w =
     (case getProjectNumber_lib metadata w of
        (Inl err, w1) \<Rightarrow> logger ''info'' ''No project number, dropping trace.'' None w1
      | (Inr project, w1) \<Rightarrow>
          (let tr' = tr\<lparr>trace_project_id := Some project\<rparr>;
               w2 = w1\<lparr>writer_buffer := writer_buffer w1 @ [tr']\<rparr>;
               w3 = logger ''debug'' ''queued trace. new size:'' (Some (length (writer_buffer w2))) w2
           in if int (length (writer_buffer w3)) \<ge> bufferSize (writer_config w3)
              then (logger ''info'' ''Flushing: performing periodic flush'' None w3)
                     \<lparr>immediates := immediates w3 @ [project]\<rparr>
              else w3))"

text \<open>src/unnamed/part_000, lines 74-94.\<close>

definition queueTrace_part000 :: "string + string \<Rightarrow> Trace \<Rightarrow> TraceWriter \<Rightarrow> TraceWriter" where
  "queueTrace_part000 metadata tr w =
     (case getProjectNumber_part000 metadata w of
        (Inl err, w1) \<Rightarrow> w1
      | (Inr project, w1) \<Rightarrow>
          (let tr' = tr\<lparr>trace_projectId := Some project\<rparr>;
               w2 = (if int (length (writer_buffer w1)) \<le> bufferSize (writer_config w1)
                     then logger ''info'' ''queued trace. new size:''
                            (Some (Suc (length (writer_buffer w1))))
                            (w1\<lparr>writer_buffer := writer_buffer w1 @ [tr']\<rparr>)
                     else w1)
           in if int (length (writer_buffer w2)) \<ge> bufferSize (writer_config w2)
                 \<and> publishImmediately (writer_config w2)
              then w2\<lparr>immediates := immediates w2 @ [project]\<rparr>
              else w2))"

subsection \<open>writeSpan\<close>

text \<open>
  The loop \<^verbatim>\<open>for (var i = 0; i < spanData.trace.spans.length; i++)\<close> as a recursion
  along the span list, \<open>i\<close> being the index reached. The clock is read by each
  \<^verbatim>\<open>close()\<close>: \<open>clock i\<close> is the text it yields while the loop is at index \<open>i\<close>.
\<close>

fun close_open_lib :: "(nat \<Rightarrow> string) \<Rightarrow> nat \<Rightarrow> TraceSpan list \<Rightarrow> TraceSpan list" where
  "close_open_lib clock i [] = []"
| "close_open_lib clock i (sp # sps) =
     (if \<not> isClosed sp then close (clock i) sp else sp) # close_open_lib clock (Suc i) sps"

fun close_open_part000 :: "(nat \<Rightarrow> string) \<Rightarrow> nat \<Rightarrow> TraceSpan list \<Rightarrow> TraceSpan list" where
  "close_open_part000 clock i [] = []"
| "close_open_part000 clock i (sp # sps) =
     (if endTime sp = '''' then close (clock i) sp else sp)
       # close_open_part000 clock (Suc i) sps"

text \<open>
  src/lib/trace-writer.js, lines 77-110: the labels the writer adds before queueing.
  \<^verbatim>\<open>a || b\<close> is \<open>a\<close> when \<open>a\<close> is truthy and \<open>b\<close> otherwise, whatever \<open>b\<close> is; a label is
  added with the (truthy, hence present) value tested just before; \<^verbatim>\<open>moduleName + ':'\<close>
  converts \<^verbatim>\<open>moduleName\<close> to a string, which for \<^verbatim>\<open>undefined\<close> is the text
  \<^verbatim>\<open>undefined\<close>.
\<close>

definition js_string :: "string option \<Rightarrow> string" where
  "js_string v = (case v of None \<Rightarrow> ''undefined'' | Some s \<Rightarrow> s)"

definition add_writer_labels :: "traceLabels \<Rightarrow> string \<Rightarrow> Config \<Rightarrow> SpanData \<Rightarrow> SpanData" where
  "add_writer_labels L version c sd0 =
     (let sd1 = (if truthy (hostname c) then addLabel (GCE_HOSTNAME L) (the (hostname c)) sd0
                 else sd0);
          sd2 = (if truthy (instanceId c) then addLabel (GCE_INSTANCE_ID L) (the (instanceId c)) sd1
                 else sd1);
          moduleName = (if truthy (gae_module_name c) then gae_module_name c else hostname c);
          sd3 = (if truthy moduleName then addLabel (GAE_MODULE_NAME L) (the moduleName) sd2
                 else sd2);
          sd4 = (if truthy (gae_module_version c) then
                   (let sd3' = addLabel (GAE_MODULE_VERSION L) (the (gae_module_version c)) sd3
                    in if truthy (gae_minor_version c) then
                         (let versionLabel0 = (if moduleName \<noteq> Some ''default''
                                               then js_string moduleName @ '':'' else '''');
                              versionLabel = versionLabel0 @ the (gae_module_version c) @ ''.''
                                               @ the (gae_minor_version c)
                          in addLabel (GAE_VERSION L) versionLabel sd3')
                       else sd3')
                 else sd3)
      in addLabel (AGENT_DATA L) (''node '' @ version) sd4)"

definition writeSpan_lib ::
  "traceLabels \<Rightarrow> string \<Rightarrow> (nat \<Rightarrow> string) \<Rightarrow> string + string \<Rightarrow> SpanData \<Rightarrow> TraceWriter
     \<Rightarrow> TraceWriter" where
  "writeSpan_lib L version clock metadata spanData w =
     (let sd0 = spanData\<lparr>trace := (trace spanData)
                   \<lparr>spans := close_open_lib clock 0 (spans (trace spanData))\<rparr>\<rparr>;
          sd1 = add_writer_labels L version (writer_config w) sd0
      in queueTrace_lib metadata (trace sd1) w)"

text \<open>src/unnamed/part_000, lines 59-66.\<close>

definition writeSpan_part000 ::
  "(nat \<Rightarrow> string) \<Rightarrow> string + string \<Rightarrow> SpanData \<Rightarrow> TraceWriter \<Rightarrow> TraceWriter" where
  "writeSpan_part000 clock metadata spanData w =
     (let sd0 = spanData\<lparr>trace := (trace spanData)
                   \<lparr>spans := close_open_part000 clock 0 (spans (trace spanData))\<rparr>\<rparr>
      in queueTrace_part000 metadata (trace sd0) w)"


subsection \<open>Example data\<close>

text \<open>
  A trace whose root span is closed while its child is still open, and a writer with a
  configured project, an empty buffer and room for 1000 traces.
\<close>

definition example_trace :: Trace where
  "example_trace =
     \<lparr>traceId = ''0123456789abcdef0123456789abcdef'',
      spans = [\<lparr>name = ''root'', spanId = 1, parentSpanId = 0,
                startTime = ''2017-01-01T00:00:00.000Z'', endTime = ''2017-01-01T00:00:01.000Z'',
                kind = ''RPC_SERVER'', labels = Map.empty\<rparr>,
               \<lparr>name = ''child'', spanId = 2, parentSpanId = 1,
                startTime = ''2017-01-01T00:00:00.500Z'', endTime = '''',
                kind = ''RPC_CLIENT'', labels = Map.empty\<rparr>],
      trace_project_id = None, trace_projectId = None\<rparr>"

definition example_spanData :: SpanData where
  "example_spanData = \<lparr>trace = example_trace, span = 0\<rparr>"

definition example_writer :: TraceWriter where
  "example_writer =
     \<lparr>writer_config =
        \<lparr>projectId = Some ''my-project'', bufferSize = 1000, publishImmediately = False,
         hostname = None, instanceId = None, gae_module_name = None,
         gae_module_version = None, gae_minor_version = None\<rparr>,
      writer_buffer = [], logged = [], immediates = []\<rparr>"

definition example_labels :: traceLabels where
  "example_labels =
     \<lparr>GCE_HOSTNAME = ''hostname'', GCE_INSTANCE_ID = ''instance'', GAE_MODULE_NAME = ''module'',
      GAE_MODULE_VERSION = ''module-version'', GAE_VERSION = ''version'', AGENT_DATA = ''agent''\<rparr>"

text \<open>The same writer with no project configured, and with a buffer beyond its capacity.\<close>

definition example_writer_no_project :: TraceWriter where
  "example_writer_no_project =
     example_writer\<lparr>writer_config := (writer_config example_writer)\<lparr>projectId := None\<rparr>\<rparr>"

definition example_writer_full :: TraceWriter where
  "example_writer_full =
     example_writer\<lparr>writer_config := (writer_config example_writer)\<lparr>bufferSize := 0\<rparr>,
                    writer_buffer := [example_trace]\<rparr>"

section \<open>Theorems: context propagation\<close>

lemma lookup_assign: "lookup (assign k v s) j = (if j = k then v else lookup s j)"
  by (simp add: lookup_def assign_def)

lemma lookup_delete: "lookup (delete k s) j = (if j = k then Undefined else lookup s j)"
  by (simp add: lookup_def delete_def)

text \<open>
  C1. While the store is enabled, a creation event for unit \<open>ident\<close> with trigger \<open>t\<close> and
  kind \<open>k\<close> sets the entry of \<open>ident\<close> to the entry of the unit executing at that moment
  when \<open>k\<close> is \<^verbatim>\<open>'PROMISE'\<close>, and to the entry of \<open>t\<close> for every other kind; no other entry
  changes and no Reference is written. A destruction event for \<open>ident\<close> removes the key
  \<open>ident\<close> from the dictionary and leaves every other key alone.
\<close>

theorem C1_init_destroy:
  assumes "enabled s"
  shows "lookup (observe eid (Init ident k t) s) ident
           = (if k = ''PROMISE'' then lookup s eid else lookup s t)
       \<and> ident \<in> dom (contexts (observe eid (Init ident k t) s))
       \<and> (\<forall>j. j \<noteq> ident \<longrightarrow> contexts (observe eid (Init ident k t) s) j = contexts s j)
       \<and> refs (observe eid (Init ident k t) s) = refs s
       \<and> ident \<notin> dom (contexts (observe eid (Destroy ident) s))
       \<and> lookup (observe eid (Destroy ident) s) ident = Undefined
       \<and> (\<forall>j. j \<noteq> ident \<longrightarrow> contexts (observe eid (Destroy ident) s) j = contexts s j)
       \<and> refs (observe eid (Destroy ident) s) = refs s"
  using assms
  by (simp add: observe_def init_def destroy_def lookup_def assign_def delete_def)

text \<open>
  Unit 1 holds a context, unit 2 holds none. A promise created while unit 1 executes
  with trigger 2 shares the Reference of unit 1; a timer created in the same situation
  takes the (missing) entry of its trigger 2; destroying unit 7 removes its key.
\<close>

theorem C1_init_destroy_witness:
  "lookup (observe 1 (Init 7 ''PROMISE'' 2)
             (setContext 1 ''span'' (enable (AsyncHooksCLS ''root'')))) 7 = Ref 0
   \<and> lookup (observe 1 (Init 7 ''Timeout'' 2)
             (setContext 1 ''span'' (enable (AsyncHooksCLS ''root'')))) 7 = Undefined
   \<and> 7 \<notin> dom (contexts (observe 1 (Destroy 7)
             (observe 1 (Init 7 ''PROMISE'' 2)
                (setContext 1 ''span'' (enable (AsyncHooksCLS ''root''))))))"
proof -
  let ?s = "setContext 1 ''span'' (enable (AsyncHooksCLS ''root''))"
  have en: "enabled ?s"
    by (simp add: setContext_def enable_def AsyncHooksCLS_def lookup_def new_ref_def assign_def)
  have l1: "lookup ?s 1 = Ref 0" and l2: "lookup ?s 2 = Undefined"
    by (simp_all add: setContext_def enable_def AsyncHooksCLS_def lookup_def new_ref_def
        assign_def)
  have en': "enabled (observe 1 (Init 7 ''PROMISE'' 2) ?s)"
    using en by (simp add: observe_def init_def assign_def)
  from C1_init_destroy [OF en, of 1 7 "''PROMISE''" 2] l1
  have a: "lookup (observe 1 (Init 7 ''PROMISE'' 2) ?s) 7 = Ref 0" by simp
  from C1_init_destroy [OF en, of 1 7 "''Timeout''" 2] l2
  have b: "lookup (observe 1 (Init 7 ''Timeout'' 2) ?s) 7 = Undefined" by simp
  from C1_init_destroy [OF en', of 1 7]
  have c: "7 \<notin> dom (contexts (observe 1 (Destroy 7) (observe 1 (Init 7 ''PROMISE'' 2) ?s)))"
    by blast
  from a b c show ?thesis by blast
qed

lemma evolves_refl: "wf_cls s \<Longrightarrow> evolves e s s"
  by (auto simp add: evolves_def split: slot.splits)

lemma evolves_trans:
  assumes "evolves e s s'" and "evolves e s' s''"
  shows "evolves e s s''"
  unfolding evolves_def
proof (intro conjI allI impI)
  show "wf_cls s''" using assms by (simp add: evolves_def)
  show "length (refs s) \<le> length (refs s'')" using assms by (simp add: evolves_def)
  show "defaultContext s'' = defaultContext s" using assms by (simp add: evolves_def)
  show "contexts s'' j = contexts s j" if "j \<noteq> e" for j
    using assms that by (simp add: evolves_def)
  show "refs s'' ! r = refs s ! r" if r: "r < length (refs s) \<and> lookup s e \<noteq> Ref r" for r
  proof -
    from assms(1) r have a: "refs s' ! r = refs s ! r" by (simp add: evolves_def)
    from assms(1) r have "lookup s' e \<noteq> Ref r"
      by (auto simp add: evolves_def split: slot.splits)
    moreover from assms(1) r have "r < length (refs s')" by (simp add: evolves_def)
    ultimately have "refs s'' ! r = refs s' ! r" using assms(2) by (simp add: evolves_def)
    with a show ?thesis by simp
  qed
  show "case lookup s e of
            Ref r \<Rightarrow> lookup s'' e = Ref r
          | Undefined \<Rightarrow> lookup s'' e = Undefined
                          \<or> (\<exists>r. length (refs s) \<le> r \<and> lookup s'' e = Ref r)"
    using assms by (fastforce simp add: evolves_def split: slot.splits)
qed

lemma evolves_setContext:
  assumes "wf_cls s"
  shows "evolves e s (setContext e v s)"
proof (cases "lookup s e")
  case Undefined
  then show ?thesis using assms
    by (auto simp add: evolves_def setContext_def new_ref_def assign_def lookup_def wf_cls_def
        nth_append less_Suc_eq split: option.splits)
next
  case (Ref r)
  then show ?thesis using assms
    by (auto simp add: evolves_def setContext_def lookup_def wf_cls_def split: option.splits)
qed

lemma runWithNewContext_evolves:
  assumes wf: "wf_cls s"
    and body: "\<And>s2. wf_cls s2 \<Longrightarrow> evolves e s2 (snd (invoke fn e [] s2))"
  shows "evolves e s (snd (runWithNewContext e fn s))
       \<and> lookup (snd (runWithNewContext e fn s)) e = lookup s e
       \<and> (\<forall>r. r < length (refs s) \<longrightarrow> refs (snd (runWithNewContext e fn s)) ! r = refs s ! r)"
proof -
  let ?n = "length (refs s)"
  let ?s2 = "assign e (Ref ?n) (s\<lparr>refs := refs s @ [defaultContext s]\<rparr>)"
  let ?s3 = "snd (invoke fn e [] ?s2)"
  let ?s' = "snd (runWithNewContext e fn s)"
  have run: "?s' = assign e (lookup s e) ?s3"
    by (simp add: runWithNewContext_def new_ref_def Let_def split_beta)
  have wf2: "wf_cls ?s2"
    using wf by (auto simp add: wf_cls_def assign_def less_Suc_eq)
  from body [OF wf2] have ev: "evolves e ?s2 ?s3" .
  have l2: "lookup ?s2 e = Ref ?n" by (simp add: lookup_assign)
  have len2: "length (refs ?s2) = Suc ?n" by (simp add: assign_def)
  from ev have len3: "Suc ?n \<le> length (refs ?s3)"
    using len2 by (simp add: evolves_def)
  from ev have others3: "\<forall>j. j \<noteq> e \<longrightarrow> contexts ?s3 j = contexts s j"
    by (simp add: evolves_def assign_def)
  have cells: "refs ?s' ! r = refs s ! r" if r: "r < ?n" for r
  proof -
    from r have "r < length (refs ?s2) \<and> lookup ?s2 e \<noteq> Ref r"
      using l2 len2 by simp
    with ev have "refs ?s3 ! r = refs ?s2 ! r"
      unfolding evolves_def by blast
    with r show ?thesis by (simp add: run assign_def nth_append)
  qed
  have look: "lookup ?s' e = lookup s e"
    by (simp add: run lookup_assign)
  have wf': "wf_cls ?s'"
    unfolding wf_cls_def
  proof (intro allI impI)
    fix k r assume kr: "contexts ?s' k = Some (Ref r)"
    show "r < length (refs ?s')"
    proof (cases "k = e")
      case True
      with kr have "lookup s e = Ref r" by (simp add: run assign_def)
      then have "contexts s e = Some (Ref r)"
        by (simp add: lookup_def split: option.splits)
      with wf have "r < ?n" by (simp add: wf_cls_def)
      with len3 show ?thesis by (simp add: run assign_def)
    next
      case False
      with kr others3 have "contexts s k = Some (Ref r)" by (simp add: run assign_def)
      with wf have "r < ?n" by (simp add: wf_cls_def)
      with len3 show ?thesis by (simp add: run assign_def)
    qed
  qed
  have "evolves e s ?s'"
    unfolding evolves_def
  proof (intro conjI allI impI)
    show "wf_cls ?s'" by (rule wf')
    show "length (refs s) \<le> length (refs ?s')" using len3 by (simp add: run assign_def)
    show "defaultContext ?s' = defaultContext s"
      using ev by (simp add: run assign_def evolves_def)
    show "contexts ?s' j = contexts s j" if "j \<noteq> e" for j
      using that others3 by (simp add: run assign_def)
    show "refs ?s' ! r = refs s ! r" if "r < length (refs s) \<and> lookup s e \<noteq> Ref r" for r
      using that cells by simp
    show "case lookup s e of
            Ref r \<Rightarrow> lookup ?s' e = Ref r
          | Undefined \<Rightarrow> lookup ?s' e = Undefined
                          \<or> (\<exists>r. length (refs s) \<le> r \<and> lookup ?s' e = Ref r)"
      using look by (simp split: slot.splits)
  qed
  with look cells show ?thesis by blast
qed

lemma exec_evolves:
  "wf_cls s \<Longrightarrow> evolves eid s (snd (exec eid c s))"
  "wf_cls s \<Longrightarrow> evolves eid s (snd (exec_seq eid cs s))"
proof (induction eid c s and eid cs s rule: exec_exec_seq.induct)
  case (1 eid v s)
  then show ?case by (simp add: evolves_setContext)
next
  case (2 eid e s)
  then show ?case by (simp add: evolves_refl)
next
  case (3 eid body s)
  have "evolves eid s2 (snd (invoke (Func False 0 (\<lambda>u (args :: unit list) st. exec_seq u body st))
                                 eid [] s2))"
    if "wf_cls s2" for s2
    using "3.IH" that by simp
  from runWithNewContext_evolves [OF "3.prems" this] show ?case by simp
next
  case (4 eid s)
  then show ?case by (simp add: evolves_refl)
next
  case (5 eid c cs s)
  from "5.IH"(1) [OF "5.prems"] have first: "evolves eid s (snd (exec eid c s))" .
  show ?case
  proof (cases "exec eid c s")
    case (Pair res s')
    show ?thesis
    proof (cases res)
      case (Inl e)
      with Pair first show ?thesis by simp
    next
      case (Inr u)
      from first Pair have wf': "wf_cls s'" by (simp add: evolves_def)
      from "5.IH"(2) Pair Inr wf'
      have "evolves eid s' (snd (exec_seq eid cs s'))" by simp
      with first Pair Inr show ?thesis
        by (simp add: evolves_trans [of eid s s'])
    qed
  qed
qed

text \<open>
  A block of nested \<open>setContext\<close> and \<open>runWithNewContext\<close> calls leaves the context
  that \<open>getContext\<close> reports exactly as it was before the block.
\<close>

lemma nested_block_restores_context:
  assumes "wf_cls s"
  shows "getContext eid (snd (exec eid (RunWithNewContext body) s)) = getContext eid s
       \<and> lookup (snd (exec eid (RunWithNewContext body) s)) eid = lookup s eid"
proof -
  let ?fn = "Func False 0 (\<lambda>u (args :: unit list) st. exec_seq u body st)"
  have body: "evolves eid s2 (snd (invoke ?fn eid [] s2))" if "wf_cls s2" for s2
    using exec_evolves(2) [OF that, of eid body] by simp
  from runWithNewContext_evolves [OF assms body]
  have ev: "evolves eid s (snd (runWithNewContext eid ?fn s))"
    and look: "lookup (snd (runWithNewContext eid ?fn s)) eid = lookup s eid"
    and cells: "\<forall>r. r < length (refs s) \<longrightarrow> refs (snd (runWithNewContext eid ?fn s)) ! r = refs s ! r"
    by blast+
  have "getContext eid (snd (runWithNewContext eid ?fn s)) = getContext eid s"
  proof (cases "lookup s eid")
    case Undefined
    with look ev show ?thesis by (simp add: getContext_def evolves_def)
  next
    case (Ref r)
    then have "contexts s eid = Some (Ref r)"
      by (simp add: lookup_def split: option.splits)
    with assms have "r < length (refs s)" by (simp add: wf_cls_def)
    with cells Ref look show ?thesis by (simp add: getContext_def)
  qed
  with look show ?thesis by simp
qed

text \<open>The stores the class can reach are well formed.\<close>

lemma wf_cls_reachable:
  "wf_cls (AsyncHooksCLS d)"
  "wf_cls s \<Longrightarrow> wf_cls (enable s)"
  "wf_cls s \<Longrightarrow> wf_cls (disable s)"
  "wf_cls s \<Longrightarrow> wf_cls (setContext e v s)"
  "wf_cls s \<Longrightarrow> wf_cls (observe e ev s)"
proof -
  show "wf_cls (AsyncHooksCLS d)" by (simp add: wf_cls_def AsyncHooksCLS_def)
  show "wf_cls s \<Longrightarrow> wf_cls (enable s)" by (simp add: wf_cls_def enable_def)
  show "wf_cls s \<Longrightarrow> wf_cls (disable s)" by (simp add: wf_cls_def disable_def)
  show "wf_cls s \<Longrightarrow> wf_cls (setContext e v s)"
    using evolves_setContext [of s e v] by (simp add: evolves_def)
  show "wf_cls s \<Longrightarrow> wf_cls (observe e ev s)"
    by (cases ev)
      (auto simp add: wf_cls_def observe_def init_def destroy_def assign_def delete_def
        lookup_def split: option.splits if_splits)
qed

text \<open>
  C2 (as the code has it). \<open>runWithNewContext eid fn\<close> calls \<open>fn\<close> on a store \<open>s2\<close> in
  which the entry of the executing unit is a freshly allocated Reference holding the
  default context (so \<open>getContext\<close> yields the default), every other entry and every
  existing Reference being as before. Whatever \<open>fn\<close> does to the store and whether it
  returns (\<open>Inr\<close>) or throws (\<open>Inl\<close>), its outcome is the outcome of the call, and
  afterwards the entry of the executing unit is exactly the entry it had before the
  call (the same Reference, or none); nothing else of the store \<open>fn\<close> left behind is
  touched. Hence \<open>getContext\<close> afterwards yields the value which that Reference holds
  in the store \<open>fn\<close> left behind: the context active before the call provided \<open>fn\<close> has
  not written through that Reference (nor, the unit having no entry, changed the
  default). When \<open>fn\<close> is itself made of nested \<open>setContext\<close> and \<open>runWithNewContext\<close>
  calls and throws, \<open>getContext\<close> after the block returns what it returned before the
  block.
\<close>

theorem C2_runWithNewContext_restores:
  "(\<exists>s2. getContext eid s2 = defaultContext s
       \<and> lookup s2 eid = Ref (length (refs s))
       \<and> (\<forall>j. j \<noteq> eid \<longrightarrow> contexts s2 j = contexts s j)
       \<and> (\<forall>r. r < length (refs s) \<longrightarrow> refs s2 ! r = refs s ! r)
       \<and> defaultContext s2 = defaultContext s
       \<and> fst (runWithNewContext eid fn s) = fst (invoke fn eid [] s2)
       \<and> lookup (snd (runWithNewContext eid fn s)) eid = lookup s eid
       \<and> (\<forall>j. j \<noteq> eid \<longrightarrow> contexts (snd (runWithNewContext eid fn s)) j
                              = contexts (snd (invoke fn eid [] s2)) j)
       \<and> refs (snd (runWithNewContext eid fn s)) = refs (snd (invoke fn eid [] s2))
       \<and> defaultContext (snd (runWithNewContext eid fn s))
           = defaultContext (snd (invoke fn eid [] s2))
       \<and> getContext eid (snd (runWithNewContext eid fn s))
           = (case lookup s eid of
                Ref r \<Rightarrow> refs (snd (invoke fn eid [] s2)) ! r
              | Undefined \<Rightarrow> defaultContext (snd (invoke fn eid [] s2)))
       \<and> ((case lookup s eid of
              Ref r \<Rightarrow> refs (snd (invoke fn eid [] s2)) ! r = refs s ! r
            | Undefined \<Rightarrow> defaultContext (snd (invoke fn eid [] s2)) = defaultContext s)
            \<longrightarrow> getContext eid (snd (runWithNewContext eid fn s)) = getContext eid s))
   \<and> (\<forall>body. wf_cls s \<longrightarrow>
          getContext eid (snd (exec eid (RunWithNewContext body) s)) = getContext eid s
        \<and> lookup (snd (exec eid (RunWithNewContext body) s)) eid = lookup s eid)"
proof (rule conjI)
  let ?s2 = "assign eid (Ref (length (refs s))) (s\<lparr>refs := refs s @ [defaultContext s]\<rparr>)"
  let ?s3 = "snd (invoke fn eid [] ?s2)"
  have run: "runWithNewContext eid fn s
      = (fst (invoke fn eid [] ?s2), assign eid (lookup s eid) ?s3)"
    by (simp add: runWithNewContext_def new_ref_def Let_def split_beta)
  have "getContext eid ?s2 = defaultContext s"
    by (simp add: getContext_def lookup_def assign_def)
  moreover have "lookup ?s2 eid = Ref (length (refs s))"
    by (simp add: lookup_assign)
  moreover have "\<forall>j. j \<noteq> eid \<longrightarrow> contexts ?s2 j = contexts s j"
    by (simp add: assign_def)
  moreover have "\<forall>r. r < length (refs s) \<longrightarrow> refs ?s2 ! r = refs s ! r"
    by (simp add: assign_def nth_append)
  moreover have "defaultContext ?s2 = defaultContext s"
    by (simp add: assign_def)
  moreover have "fst (runWithNewContext eid fn s) = fst (invoke fn eid [] ?s2)"
    by (simp add: run)
  moreover have l: "lookup (snd (runWithNewContext eid fn s)) eid = lookup s eid"
    by (simp add: run lookup_assign)
  moreover have "\<forall>j. j \<noteq> eid \<longrightarrow> contexts (snd (runWithNewContext eid fn s)) j
                              = contexts ?s3 j"
    by (simp add: run assign_def)
  moreover have r: "refs (snd (runWithNewContext eid fn s)) = refs ?s3"
    by (simp add: run assign_def)
  moreover have d: "defaultContext (snd (runWithNewContext eid fn s)) = defaultContext ?s3"
    by (simp add: run assign_def)
  moreover have after: "getContext eid (snd (runWithNewContext eid fn s))
           = (case lookup s eid of
                Ref r \<Rightarrow> refs ?s3 ! r
              | Undefined \<Rightarrow> defaultContext ?s3)"
    by (simp only: getContext_def l r d)
  moreover have "(case lookup s eid of
              Ref r \<Rightarrow> refs ?s3 ! r = refs s ! r
            | Undefined \<Rightarrow> defaultContext ?s3 = defaultContext s)
            \<longrightarrow> getContext eid (snd (runWithNewContext eid fn s)) = getContext eid s"
    unfolding after by (simp add: getContext_def split: slot.splits)
  ultimately show "\<exists>s2. getContext eid s2 = defaultContext s
       \<and> lookup s2 eid = Ref (length (refs s))
       \<and> (\<forall>j. j \<noteq> eid \<longrightarrow> contexts s2 j = contexts s j)
       \<and> (\<forall>r. r < length (refs s) \<longrightarrow> refs s2 ! r = refs s ! r)
       \<and> defaultContext s2 = defaultContext s
       \<and> fst (runWithNewContext eid fn s) = fst (invoke fn eid [] s2)
       \<and> lookup (snd (runWithNewContext eid fn s)) eid = lookup s eid
       \<and> (\<forall>j. j \<noteq> eid \<longrightarrow> contexts (snd (runWithNewContext eid fn s)) j
                              = contexts (snd (invoke fn eid [] s2)) j)
       \<and> refs (snd (runWithNewContext eid fn s)) = refs (snd (invoke fn eid [] s2))
       \<and> defaultContext (snd (runWithNewContext eid fn s))
           = defaultContext (snd (invoke fn eid [] s2))
       \<and> getContext eid (snd (runWithNewContext eid fn s))
           = (case lookup s eid of
                Ref r \<Rightarrow> refs (snd (invoke fn eid [] s2)) ! r
              | Undefined \<Rightarrow> defaultContext (snd (invoke fn eid [] s2)))
       \<and> ((case lookup s eid of
              Ref r \<Rightarrow> refs (snd (invoke fn eid [] s2)) ! r = refs s ! r
            | Undefined \<Rightarrow> defaultContext (snd (invoke fn eid [] s2)) = defaultContext s)
            \<longrightarrow> getContext eid (snd (runWithNewContext eid fn s)) = getContext eid s)"
    by blast
next
  show "\<forall>body. wf_cls s \<longrightarrow>
          getContext eid (snd (exec eid (RunWithNewContext body) s)) = getContext eid s
        \<and> lookup (snd (exec eid (RunWithNewContext body) s)) eid = lookup s eid"
    using nested_block_restores_context [of s eid] by blast
qed

text \<open>
  Unit 1 holds the context \<open>''span''\<close>. The function sets a context of its own and then
  throws: the exception reaches the caller, unit 1 is back on its Reference 0, which
  the function has not written, and \<open>getContext\<close> yields \<open>''span''\<close> again.
\<close>

theorem C2_runWithNewContext_restores_witness:
  "fst (runWithNewContext 1
          (Func False 0 (\<lambda>u (args :: unit list) st. (Inl ''boom'' :: string + unit,
                                                   setContext u ''inner'' st)))
          (setContext 1 ''span'' (AsyncHooksCLS ''root''))) = Inl ''boom''
   \<and> lookup (snd (runWithNewContext 1
          (Func False 0 (\<lambda>u (args :: unit list) st. (Inl ''boom'' :: string + unit,
                                                   setContext u ''inner'' st)))
          (setContext 1 ''span'' (AsyncHooksCLS ''root'')))) 1 = Ref 0
   \<and> getContext 1 (snd (runWithNewContext 1
          (Func False 0 (\<lambda>u (args :: unit list) st. (Inl ''boom'' :: string + unit,
                                                   setContext u ''inner'' st)))
          (setContext 1 ''span'' (AsyncHooksCLS ''root'')))) = ''span''
   \<and> getContext 1 (snd (exec 1 (RunWithNewContext [SetContext ''inner'', Throw ''boom''])
          (setContext 1 ''span'' (AsyncHooksCLS ''root'')))) = ''span''"
proof -
  let ?f = "Func False 0 (\<lambda>u (args :: unit list) st. (Inl ''boom'' :: string + unit,
                                                   setContext u ''inner'' st))"
  let ?s = "setContext 1 ''span'' (AsyncHooksCLS ''root'')"
  have look: "lookup ?s 1 = Ref 0" and get: "getContext 1 ?s = ''span''"
    and len: "length (refs ?s) = 1"
    by (simp_all add: getContext_def setContext_def AsyncHooksCLS_def lookup_def new_ref_def
        assign_def)
  note inst = C2_runWithNewContext_restores [of 1 ?s ?f]
  from inst obtain s2 where s2: "lookup s2 1 = Ref (length (refs ?s))"
    and old: "\<forall>r. r < length (refs ?s) \<longrightarrow> refs s2 ! r = refs ?s ! r"
    and res: "fst (runWithNewContext 1 ?f ?s) = fst (invoke ?f 1 [] s2)"
    and restored: "lookup (snd (runWithNewContext 1 ?f ?s)) 1 = lookup ?s 1"
    and untouched: "(case lookup ?s 1 of
              Ref r \<Rightarrow> refs (snd (invoke ?f 1 [] s2)) ! r = refs ?s ! r
            | Undefined \<Rightarrow> defaultContext (snd (invoke ?f 1 [] s2)) = defaultContext ?s)
            \<longrightarrow> getContext 1 (snd (runWithNewContext 1 ?f ?s)) = getContext 1 ?s"
    by blast
  from s2 have l2: "lookup s2 1 = Ref 1" by (simp only: len)
  from old have r0: "refs s2 ! 0 = refs ?s ! 0" by (simp only: len)
  have "refs (snd (invoke ?f 1 [] s2)) ! 0 = refs s2 ! 0"
    using l2 by (simp add: setContext_def)
  then have kept: "refs (snd (invoke ?f 1 [] s2)) ! 0 = refs ?s ! 0"
    by (simp only: r0)
  from untouched have "refs (snd (invoke ?f 1 [] s2)) ! 0 = refs ?s ! 0
      \<longrightarrow> getContext 1 (snd (runWithNewContext 1 ?f ?s)) = getContext 1 ?s"
    by (simp only: look slot.case)
  with kept have same: "getContext 1 (snd (runWithNewContext 1 ?f ?s)) = getContext 1 ?s"
    by (rule rev_mp)
  have wf: "wf_cls ?s"
    by (simp add: wf_cls_reachable)
  with inst have nested: "getContext 1 (snd (exec 1 (RunWithNewContext
        [SetContext ''inner'', Throw ''boom'']) ?s)) = getContext 1 ?s"
    by blast
  from res restored same nested look get show ?thesis by simp
qed

text \<open>
  The claim as worded fails when \<open>fn\<close> writes through the Reference the unit was bound
  to. Unit 1 holds the context \<open>''A''\<close>; a callback that calls \<open>setContext ''X''\<close> is bound
  to the current context and then run by \<open>runWithNewContext\<close>. The wrapper puts unit 1
  back on the old Reference while the callback runs, so \<open>setContext\<close> writes it: after
  the call the entry of unit 1 is the Reference it was before, and \<open>getContext\<close> yields
  \<open>''X''\<close>, not \<open>''A''\<close>.
\<close>

theorem C2_context_value_counterexample:
  "getContext 1 (setContext 1 ''A'' (AsyncHooksCLS ''root'')) = ''A''
   \<and> getContext 1 (snd (runWithNewContext 1
        (bindWithCurrentContext 1
           (Func False 0 (\<lambda>u (args :: unit list) st. (Inr () :: string + unit,
                                                    setContext u ''X'' st)))
           (setContext 1 ''A'' (AsyncHooksCLS ''root'')))
        (setContext 1 ''A'' (AsyncHooksCLS ''root'')))) = ''X''
   \<and> lookup (snd (runWithNewContext 1
        (bindWithCurrentContext 1
           (Func False 0 (\<lambda>u (args :: unit list) st. (Inr () :: string + unit,
                                                    setContext u ''X'' st)))
           (setContext 1 ''A'' (AsyncHooksCLS ''root'')))
        (setContext 1 ''A'' (AsyncHooksCLS ''root'')))) 1
     = lookup (setContext 1 ''A'' (AsyncHooksCLS ''root'')) 1"
  by (simp add: runWithNewContext_def bindWithCurrentContext_def contextWrapper_def
      getContext_def setContext_def AsyncHooksCLS_def lookup_def new_ref_def assign_def)

text \<open>
  C3 (as the code has it). Let \<open>fn\<close> be wrapped on unit \<open>e\<close> whose entry is the Reference
  \<open>b\<close>, so that the context at wrap time is the value \<open>b\<close> holds then. The wrapper
  carries the marker and the \<open>length\<close> of \<open>fn\<close>. Each invocation, on
  any unit \<open>u\<close> and any later store \<open>s'\<close> (so after any number of earlier invocations),
  calls \<open>fn\<close> with the same arguments on a store \<open>s1\<close> that differs from \<open>s'\<close> only in
  the entry of \<open>u\<close>, which is the captured Reference \<open>b\<close>; what \<open>fn\<close> observes through
  \<open>getContext\<close> is therefore the value that Reference holds at invocation time. The
  outcome of \<open>fn\<close> is passed on, and afterwards the entry of \<open>u\<close> is what it was before
  the invocation. Wrapping the wrapper again, on any unit and store, returns it
  unchanged.
\<close>

theorem C3_bindWithCurrentContext_wrapper:
  assumes "\<not> WRAPPED fn" and "lookup s e = Ref b"
  shows "WRAPPED (bindWithCurrentContext e fn s)
       \<and> flength (bindWithCurrentContext e fn s) = flength fn
       \<and> getContext e s = refs s ! b
       \<and> (\<forall>u args s'. \<exists>s1.
             lookup s1 u = Ref b
           \<and> getContext u s1 = refs s' ! b
           \<and> (\<forall>j. j \<noteq> u \<longrightarrow> contexts s1 j = contexts s' j)
           \<and> refs s1 = refs s' \<and> defaultContext s1 = defaultContext s'
           \<and> fst (invoke (bindWithCurrentContext e fn s) u args s') = fst (invoke fn u args s1)
           \<and> lookup (snd (invoke (bindWithCurrentContext e fn s) u args s')) u = lookup s' u
           \<and> (\<forall>j. j \<noteq> u \<longrightarrow> contexts (snd (invoke (bindWithCurrentContext e fn s) u args s')) j
                                 = contexts (snd (invoke fn u args s1)) j)
           \<and> refs (snd (invoke (bindWithCurrentContext e fn s) u args s'))
               = refs (snd (invoke fn u args s1)))
       \<and> (\<forall>e' s''. bindWithCurrentContext e' (bindWithCurrentContext e fn s) s''
                      = bindWithCurrentContext e fn s)"
proof -
  let ?w = "bindWithCurrentContext e fn s"
  have w: "?w = Func True (flength fn) (contextWrapper b fn)"
    using assms by (simp add: bindWithCurrentContext_def)
  have call: "invoke ?w u args s'
      = (fst (invoke fn u args (assign u (Ref b) s')),
         assign u (lookup s' u) (snd (invoke fn u args (assign u (Ref b) s'))))"
    for u args s'
    by (simp add: w contextWrapper_def Let_def split_beta)
  have inv: "\<exists>s1. lookup s1 u = Ref b
           \<and> getContext u s1 = refs s' ! b
           \<and> (\<forall>j. j \<noteq> u \<longrightarrow> contexts s1 j = contexts s' j)
           \<and> refs s1 = refs s' \<and> defaultContext s1 = defaultContext s'
           \<and> fst (invoke ?w u args s') = fst (invoke fn u args s1)
           \<and> lookup (snd (invoke ?w u args s')) u = lookup s' u
           \<and> (\<forall>j. j \<noteq> u \<longrightarrow> contexts (snd (invoke ?w u args s')) j
                                 = contexts (snd (invoke fn u args s1)) j)
           \<and> refs (snd (invoke ?w u args s')) = refs (snd (invoke fn u args s1))"
    for u args s'
  proof (intro exI [of _ "assign u (Ref b) s'"] conjI)
    show "lookup (assign u (Ref b) s') u = Ref b"
      by (simp add: lookup_assign)
    show "getContext u (assign u (Ref b) s') = refs s' ! b"
      by (simp add: getContext_def lookup_def assign_def)
    show "\<forall>j. j \<noteq> u \<longrightarrow> contexts (assign u (Ref b) s') j = contexts s' j"
      by (simp add: assign_def)
    show "refs (assign u (Ref b) s') = refs s'"
      by (simp add: assign_def)
    show "defaultContext (assign u (Ref b) s') = defaultContext s'"
      by (simp add: assign_def)
    show "fst (invoke ?w u args s') = fst (invoke fn u args (assign u (Ref b) s'))"
      by (simp add: call)
    show "lookup (snd (invoke ?w u args s')) u = lookup s' u"
      by (simp add: call lookup_assign)
    show "\<forall>j. j \<noteq> u \<longrightarrow> contexts (snd (invoke ?w u args s')) j
              = contexts (snd (invoke fn u args (assign u (Ref b) s'))) j"
      by (simp add: call assign_def)
    show "refs (snd (invoke ?w u args s')) = refs (snd (invoke fn u args (assign u (Ref b) s')))"
      by (simp add: call assign_def)
  qed
  have marked: "WRAPPED ?w" and len: "flength ?w = flength fn"
    by (simp_all add: w)
  have wraptime: "getContext e s = refs s ! b"
    using assms by (simp add: getContext_def)
  have idem: "bindWithCurrentContext e' ?w s'' = ?w" for e' s''
    unfolding bindWithCurrentContext_def [of e' ?w s''] using marked by simp
  from marked len wraptime inv idem show ?thesis by blast
qed

text \<open>
  A callback that returns the context it observes is wrapped on unit 1 while unit 1
  holds \<open>''A''\<close>. Invoked on unit 2, which has no entry, it observes \<open>''A''\<close>; unit 2
  has no binding afterwards, as before; wrapping the wrapper again changes nothing.
\<close>

theorem C3_bindWithCurrentContext_wrapper_witness:
  "WRAPPED (bindWithCurrentContext 1
       (Func False 0 (\<lambda>u (args :: unit list) st. (Inr (getContext u st) :: unit + string, st)))
       (setContext 1 ''A'' (AsyncHooksCLS ''root'')))
   \<and> fst (invoke (bindWithCurrentContext 1
       (Func False 0 (\<lambda>u (args :: unit list) st. (Inr (getContext u st) :: unit + string, st)))
       (setContext 1 ''A'' (AsyncHooksCLS ''root''))) 2 []
          (setContext 1 ''A'' (AsyncHooksCLS ''root''))) = Inr ''A''
   \<and> lookup (snd (invoke (bindWithCurrentContext 1
       (Func False 0 (\<lambda>u (args :: unit list) st. (Inr (getContext u st) :: unit + string, st)))
       (setContext 1 ''A'' (AsyncHooksCLS ''root''))) 2 []
          (setContext 1 ''A'' (AsyncHooksCLS ''root'')))) 2 = Undefined"
proof -
  let ?f = "Func False 0
       (\<lambda>u (args :: unit list) st. (Inr (getContext u st) :: unit + string, st))"
  let ?s = "setContext 1 ''A'' (AsyncHooksCLS ''root'')"
  let ?w = "bindWithCurrentContext 1 ?f ?s"
  have unwrapped: "\<not> WRAPPED ?f" by simp
  have bound: "lookup ?s 1 = Ref 0"
    by (simp add: setContext_def AsyncHooksCLS_def lookup_def new_ref_def assign_def)
  have cell: "refs ?s ! 0 = ''A''"
    by (simp add: setContext_def AsyncHooksCLS_def lookup_def new_ref_def assign_def)
  have none: "lookup ?s 2 = Undefined"
    by (simp add: setContext_def AsyncHooksCLS_def lookup_def new_ref_def assign_def)
  note inst = C3_bindWithCurrentContext_wrapper [OF unwrapped bound]
  from inst have marked: "WRAPPED ?w" by blast
  from inst obtain s1 where seen: "getContext 2 s1 = refs ?s ! 0"
    and res: "fst (invoke ?w 2 [] ?s) = fst (invoke ?f 2 [] s1)"
    and restored: "lookup (snd (invoke ?w 2 [] ?s)) 2 = lookup ?s 2"
    by blast
  from res seen cell have "fst (invoke ?w 2 [] ?s) = Inr ''A''" by simp
  with marked restored none show ?thesis by simp
qed

text \<open>
  The claim as worded says the callback observes the wrap-time context. The wrapper
  captures the Reference, not its value: when unit 1 calls \<open>setContext ''B''\<close> after
  wrapping, the same Reference is written, and the callback invoked later on unit 2
  observes \<open>''B''\<close> although the context at wrap time was \<open>''A''\<close>.
\<close>

theorem C3_wrap_time_value_counterexample:
  "getContext 1 (setContext 1 ''A'' (AsyncHooksCLS ''root'')) = ''A''
   \<and> fst (invoke (bindWithCurrentContext 1
            (Func False 0 (\<lambda>u (args :: unit list) st. (Inr (getContext u st) :: unit + string, st)))
            (setContext 1 ''A'' (AsyncHooksCLS ''root''))) 2 []
          (setContext 1 ''B'' (setContext 1 ''A'' (AsyncHooksCLS ''root'')))) = Inr ''B''
   \<and> fst (invoke (bindWithCurrentContext 1
            (Func False 0 (\<lambda>u (args :: unit list) st. (Inr (getContext u st) :: unit + string, st)))
            (setContext 1 ''A'' (AsyncHooksCLS ''root''))) 2 []
          (setContext 1 ''B'' (setContext 1 ''A'' (AsyncHooksCLS ''root''))))
       \<noteq> Inr (getContext 1 (setContext 1 ''A'' (AsyncHooksCLS ''root'')))"
  by (simp add: bindWithCurrentContext_def contextWrapper_def getContext_def setContext_def
      AsyncHooksCLS_def lookup_def new_ref_def assign_def)

text \<open>
  C10. When the executing unit has no entry (the key is missing or holds
  \<^verbatim>\<open>undefined\<close>), \<open>bindWithCurrentContext\<close> returns its argument itself: the marker is
  the argument's own, and an invocation of the result is an invocation of the argument,
  with no entry installed or restored around it.
\<close>

theorem C10_bind_without_context:
  assumes "lookup s e = Undefined"
  shows "bindWithCurrentContext e fn s = fn
       \<and> WRAPPED (bindWithCurrentContext e fn s) = WRAPPED fn
       \<and> invoke (bindWithCurrentContext e fn s) u args s' = invoke fn u args s'"
  using assms by (simp add: bindWithCurrentContext_def)

theorem C10_bind_without_context_witness:
  "bindWithCurrentContext 1
       (Func False 0 (\<lambda>u (args :: unit list) st. (Inr (getContext u st) :: unit + string, st)))
       (enable (AsyncHooksCLS ''root''))
     = Func False 0 (\<lambda>u (args :: unit list) st. (Inr (getContext u st) :: unit + string, st))"
proof -
  have "lookup (enable (AsyncHooksCLS ''root'')) 1 = Undefined"
    by (simp add: enable_def AsyncHooksCLS_def lookup_def)
  from C10_bind_without_context [OF this] show ?thesis by blast
qed

section \<open>Theorems: trace policy\<close>

subsection \<open>Rounding to binary64\<close>

lemma quotient_of_pos:
  assumes "0 < x" and "quotient_of x = (p, q)"
  shows "0 < p" and "0 < q" and "x = of_int p / of_int q"
proof -
  from assms(2) show q: "0 < q" by (rule quotient_of_denom_pos)
  from assms(2) show x: "x = of_int p / of_int q" by (rule quotient_of_div)
  from assms(1) x q show "0 < p" by (simp add: zero_less_divide_iff)
qed

lemma bitlen_powi_bounds:
  assumes "0 < p"
  shows "(2::rat) powi (bitlen p - 1) \<le> of_int p" and "of_int p < (2::rat) powi (bitlen p)"
proof -
  from assms have b: "1 \<le> bitlen p" by (simp add: bitlen_alt_def)
  from bitlen_bounds [OF assms]
  have lo: "2 ^ nat (bitlen p - 1) \<le> p" and hi: "p < 2 ^ nat (bitlen p)" by simp_all
  from lo have "(of_int (2 ^ nat (bitlen p - 1)) :: rat) \<le> of_int p"
    by (simp only: of_int_le_iff)
  with b show "(2::rat) powi (bitlen p - 1) \<le> of_int p"
    by (simp add: power_int_def)
  from hi have "(of_int p :: rat) < of_int (2 ^ nat (bitlen p))"
    by (simp only: of_int_less_iff)
  with b show "of_int p < (2::rat) powi (bitlen p)"
    by (simp add: power_int_def)
qed

lemma ilog2_bounds:
  assumes "0 < x"
  shows "2 powi ilog2 x \<le> x" and "x < 2 powi (ilog2 x + 1)"
proof -
  obtain p q where pq: "quotient_of x = (p, q)" by (cases "quotient_of x")
  from quotient_of_pos [OF assms pq]
  have p: "0 < p" and q: "0 < q" and x: "x = of_int p / of_int q" by simp_all
  let ?d = "bitlen p - bitlen q"
  have il: "ilog2 x = (if 2 powi ?d \<le> x then ?d else ?d - 1)"
    by (simp add: ilog2_def pq Let_def)
  note bp = bitlen_powi_bounds [OF p] and bq = bitlen_powi_bounds [OF q]
  have qpos: "(0::rat) < of_int q" using q by simp
  have up: "x < 2 powi (?d + 1)"
  proof -
    have "x < 2 powi (bitlen p) / 2 powi (bitlen q - 1)"
      unfolding x using bp(2) bq(1) p
      by (intro frac_less) simp_all
    also have "\<dots> = 2 powi (bitlen p - (bitlen q - 1))"
      by (simp add: power_int_diff)
    also have "bitlen p - (bitlen q - 1) = ?d + 1" by simp
    finally show ?thesis .
  qed
  have low: "2 powi (?d - 1) \<le> x"
  proof -
    have "(2::rat) powi (?d - 1) = 2 powi (bitlen p - 1 - bitlen q)" by (simp add: algebra_simps)
    also have "\<dots> = 2 powi (bitlen p - 1) / 2 powi (bitlen q)"
      by (simp add: power_int_diff)
    also have "\<dots> \<le> of_int p / of_int q"
      using bp(1) bq(2) qpos p by (intro frac_le) (simp_all add: less_imp_le)
    finally show ?thesis by (simp add: x)
  qed
  show "2 powi ilog2 x \<le> x" using low by (simp add: il)
  show "x < 2 powi (ilog2 x + 1)" using up by (auto simp add: il not_le)
qed

lemma ilog2_unique:
  assumes "2 powi E \<le> x" and "x < 2 powi (E + 1)"
  shows "ilog2 x = E"
proof -
  have "(0::rat) < 2 powi E" by simp
  with assms(1) have pos: "0 < x" by linarith
  note b = ilog2_bounds [OF pos]
  from b(1) assms(2) have "(2::rat) powi ilog2 x < 2 powi (E + 1)" by simp
  then have "ilog2 x < E + 1"
    by (metis not_less one_le_numeral power_int_increasing)
  moreover from assms(1) b(2) have "(2::rat) powi E < 2 powi (ilog2 x + 1)" by simp
  then have "E < ilog2 x + 1"
    by (metis not_less one_le_numeral power_int_increasing)
  ultimately show ?thesis by simp
qed

lemma round_half_even_ge_floor: "\<lfloor>q\<rfloor> \<le> round_half_even q"
  by (simp add: round_half_even_def Let_def)

lemma round_half_even_near:
  assumes "of_int n \<le> q" and "q < of_int n + 1 / 2"
  shows "round_half_even q = n"
proof -
  from assms have "\<lfloor>q\<rfloor> = n" by (simp add: floor_unique)
  with assms show ?thesis by (simp add: round_half_even_def Let_def)
qed

lemma round64_pos:
  assumes "0 < x"
  shows "round64 x = PInf
       \<or> round64 x = Fin (of_int (round_half_even (x / 2 powi (max (ilog2 x - 52) (- 1074))))
                           * 2 powi (max (ilog2 x - 52) (- 1074)))"
  using assms by (simp add: round64_def Let_def)

lemma round64_ge_int:
  assumes nx: "of_int n \<le> x" and n1: "1 \<le> n" and n53: "n \<le> 2 ^ 53"
  shows "round64 x = PInf \<or> (\<exists>y. round64 x = Fin y \<and> of_int n \<le> y)"
proof -
  from nx n1 have x1: "1 \<le> x"
    by (metis of_int_1_le_iff order_trans)
  then have pos: "0 < x" by simp
  define E where "E = ilog2 x"
  note b = ilog2_bounds [OF pos, folded E_def]
  from b(2) x1 have "(2::rat) powi 0 < 2 powi (E + 1)" by simp
  then have "0 < E + 1"
    by (metis not_less one_le_numeral power_int_increasing)
  then have E0: "0 \<le> E" by simp
  define e where "e = E - 52"
  have e: "max (ilog2 x - 52) (- 1074) = e"
    using E0 by (simp add: e_def E_def)
  define q where "q = x / 2 powi e"
  define z where "z = round_half_even q"
  define y where "y = of_int z * (2::rat) powi e"
  have zq: "\<lfloor>q\<rfloor> \<le> z" unfolding z_def by (rule round_half_even_ge_floor)
  have p2: "(0::rat) < 2 powi e" by simp
  have "of_int n \<le> y"
  proof (cases "e \<le> 0")
    case True
    define N where "N = n * 2 ^ nat (- e)"
    have N: "(of_int N :: rat) = of_int n / 2 powi e"
      using True by (simp add: N_def power_int_def field_simps)
    have "of_int N \<le> q"
      unfolding N q_def using nx p2 by (simp add: divide_right_mono)
    then have "N \<le> \<lfloor>q\<rfloor>" by (simp add: le_floor_iff)
    with zq have "N \<le> z" by linarith
    then have "(of_int N :: rat) \<le> of_int z" by (simp only: of_int_le_iff)
    then have "of_int N * 2 powi e \<le> y"
      unfolding y_def using p2 by (simp add: mult_right_mono)
    then show ?thesis by (simp add: N)
  next
    case False
    then have e1: "1 \<le> e" by simp
    have "(2::rat) powi 52 = 2 powi (E - e)" by (simp add: e_def)
    also have "\<dots> = 2 powi E / 2 powi e" by (simp add: power_int_diff)
    also have "\<dots> \<le> q"
      unfolding q_def using b(1) p2 by (simp add: divide_right_mono)
    finally have "(of_int (2 ^ 52) :: rat) \<le> q" by simp
    then have "2 ^ 52 \<le> \<lfloor>q\<rfloor>" by (simp only: le_floor_iff)
    with zq have "2 ^ 52 \<le> z" by linarith
    then have "(of_int (2 ^ 52) :: rat) \<le> of_int z" by (simp only: of_int_le_iff)
    then have "(2::rat) powi 52 * 2 powi e \<le> y"
      unfolding y_def using p2 by (simp add: mult_right_mono)
    moreover have "(2::rat) powi 52 * 2 powi e = 2 powi (52 + e)"
      by (simp add: power_int_add)
    moreover have "(2::rat) powi 53 \<le> 2 powi (52 + e)"
      using e1 by (intro power_int_increasing) simp_all
    moreover from n53 have "(of_int n :: rat) \<le> of_int (2 ^ 53)" by (simp only: of_int_le_iff)
    then have "(of_int n :: rat) \<le> 2 powi 53" by simp
    ultimately show ?thesis by linarith
  qed
  with round64_pos [OF pos] show ?thesis
    unfolding e q_def [symmetric] z_def [symmetric] y_def [symmetric] by blast
qed

lemma round64_binade40:
  assumes "2 ^ 40 \<le> t" and "t + 2 \<le> 2 ^ 41" and "1 \<le> w" and "w < 1 + 1 / 8192"
  shows "round64 (of_int t + w) = Fin (of_int t + 1)"
proof -
  define x where "x = of_int t + w"
  from assms(1) have "(of_int (2 ^ 40) :: rat) \<le> of_int t" by (simp only: of_int_le_iff)
  then have lo: "(2::rat) powi 40 \<le> x" using assms(3) by (simp add: x_def)
  from assms(2) have "(of_int (t + 2) :: rat) \<le> of_int (2 ^ 41)" by (simp only: of_int_le_iff)
  then have hi: "x < 2 powi (40 + 1)" using assms(4) by (simp add: x_def)
  from lo hi have il: "ilog2 x = 40" by (rule ilog2_unique)
  have "(0::rat) < 2 powi 40" by simp
  with lo have pos: "0 < x" by linarith
  have q: "x / 2 powi (- 12) = x * 4096" by (simp add: power_int_minus)
  have "round_half_even (x * 4096) = (t + 1) * 4096"
    using assms(3,4) by (intro round_half_even_near) (simp_all add: x_def algebra_simps)
  with pos show ?thesis
    unfolding x_def [symmetric]
    by (simp add: round64_def Let_def il q power_int_minus)
qed

text \<open>
  Some roundings used below: the literal \<^verbatim>\<open>999.9\<close>, the window \<^verbatim>\<open>1000 / 999.9\<close>, and the
  watermark \<^verbatim>\<open>1700000000000 + 1000 / 999.9\<close>.
\<close>

lemma round64_values:
  "round64 (9999 / 10) = Fin rate_999_9"
  "round64 (1000 / rate_999_9) = Fin (4504050032373733 / 4503599627370496)"
  "round64 (7656119366534347250032373733 / 4503599627370496) = Fin 1700000000001"
  "round64 1 = Fin 1"
  "round64 250 = Fin 250"
  "round64 500 = Fin 500"
  unfolding rate_999_9_def by code_simp+

subsection \<open>Rate decisions\<close>










subsection \<open>Rate bound\<close>

lemma sampled_Obj_step:
  "sampled (Obj sm) (k # ks)
     = (if js_less (ms k) (nextTraceStart sm) then sampled (Obj sm) ks
        else k # sampled (Obj (sm\<lparr>nextTraceStart := js_add (ms k) (traceWindow sm)\<rparr>)) ks)"
  by (simp add: sampler_shouldTrace_def Sampler_shouldTrace_def)

lemma window_good:
  assumes "0 < r" and "r \<le> 1000"
  shows "js_div (Fin 1000) (Fin r) = PInf
       \<or> (\<exists>w0. js_div (Fin 1000) (Fin r) = Fin w0 \<and> of_int (min \<lfloor>1000 / r\<rfloor> (2 ^ 53)) \<le> w0)"
proof -
  let ?n = "min \<lfloor>1000 / r\<rfloor> (2 ^ 53)"
  from assms have "1 \<le> 1000 / r" by (simp add: pos_le_divide_eq)
  then have one: "1 \<le> \<lfloor>1000 / r\<rfloor>" by (simp add: le_floor_iff)
  have "?n \<le> \<lfloor>1000 / r\<rfloor>" by simp
  then have "(of_int ?n :: rat) \<le> of_int \<lfloor>1000 / r\<rfloor>" by (simp only: of_int_le_iff)
  also have "\<dots> \<le> 1000 / r" by (rule of_int_floor_le)
  finally have a: "(of_int ?n :: rat) \<le> 1000 / r" .
  from one have b: "1 \<le> ?n" by simp
  have c: "?n \<le> 2 ^ 53" by simp
  from round64_ge_int [OF a b c] assms(1) show ?thesis by simp
qed

lemma step_blocks:
  assumes good: "w = PInf \<or> (\<exists>w0. w = Fin w0 \<and> of_int (min g (2 ^ 53)) \<le> w0)"
    and g: "1 \<le> g" and k: "0 \<le> k" and m: "m < 2 ^ 53"
    and acc: "\<not> js_less (ms m) (js_add (ms k) w)"
  shows "k + g \<le> m"
proof -
  from good show ?thesis
  proof
    assume "w = PInf"
    with acc show ?thesis by (simp add: ms_def)
  next
    assume "\<exists>w0. w = Fin w0 \<and> of_int (min g (2 ^ 53)) \<le> w0"
    then obtain w0 where w: "w = Fin w0" and w0: "of_int (min g (2 ^ 53)) \<le> w0" by blast
    let ?n = "min (k + g) (2 ^ 53)"
    have "?n \<le> k + min g (2 ^ 53)" using k by simp
    then have "(of_int ?n :: rat) \<le> of_int (k + min g (2 ^ 53))" by (simp only: of_int_le_iff)
    also have "\<dots> = of_int k + of_int (min g (2 ^ 53))" by simp
    also have "\<dots> \<le> of_int k + w0" using w0 by simp
    finally have a: "(of_int ?n :: rat) \<le> of_int k + w0" .
    have b: "1 \<le> ?n" using g k by simp
    have c: "?n \<le> 2 ^ 53" by simp
    from round64_ge_int [OF a b c]
    have "round64 (of_int k + w0) = PInf
        \<or> (\<exists>y. round64 (of_int k + w0) = Fin y \<and> of_int ?n \<le> y)" .
    then have "of_int ?n \<le> (of_int m :: rat)"
    proof
      assume "round64 (of_int k + w0) = PInf"
      with acc w show ?thesis by (simp add: ms_def)
    next
      assume "\<exists>y. round64 (of_int k + w0) = Fin y \<and> of_int ?n \<le> y"
      then obtain y where y: "round64 (of_int k + w0) = Fin y" and ny: "of_int ?n \<le> y" by blast
      from acc w y have "y \<le> of_int m" by (simp add: ms_def)
      with ny show ?thesis by linarith
    qed
    then have "?n \<le> m" by (simp only: of_int_le_iff)
    with m show ?thesis by simp
  qed
qed

lemma sampled_lower:
  assumes good: "w = PInf \<or> (\<exists>w0. w = Fin w0 \<and> of_int (min g (2 ^ 53)) \<le> w0)"
    and g: "1 \<le> g"
  shows "\<forall>k \<in> set ks. 0 \<le> k \<and> k < 2 ^ 53 \<Longrightarrow> traceWindow sm = w
     \<Longrightarrow> \<forall>m. m < 2 ^ 53 \<longrightarrow> \<not> js_less (ms m) (nextTraceStart sm) \<longrightarrow> L \<le> m
     \<Longrightarrow> x \<in> set (sampled (Obj sm) ks) \<Longrightarrow> L \<le> x"
proof (induction ks arbitrary: sm L)
  case Nil
  then show ?case by simp
next
  case (Cons k ks)
  from Cons.prems(1) have k: "0 \<le> k" "k < 2 ^ 53"
    and ks: "\<forall>k \<in> set ks. 0 \<le> k \<and> k < 2 ^ 53" by simp_all
  show ?case
  proof (cases "js_less (ms k) (nextTraceStart sm)")
    case True
    with Cons.prems(4) have "x \<in> set (sampled (Obj sm) ks)"
      by (simp add: sampled_Obj_step del: sampled.simps)
    with Cons.IH [OF ks Cons.prems(2) Cons.prems(3)] show ?thesis .
  next
    case False
    let ?sm' = "sm\<lparr>nextTraceStart := js_add (ms k) (traceWindow sm)\<rparr>"
    from False k(2) Cons.prems(3) have Lk: "L \<le> k" by blast
    from False Cons.prems(4) have "x = k \<or> x \<in> set (sampled (Obj ?sm') ks)"
      by (simp add: sampled_Obj_step del: sampled.simps)
    then show ?thesis
    proof
      assume "x = k"
      with Lk show ?thesis by simp
    next
      assume x: "x \<in> set (sampled (Obj ?sm') ks)"
      have w': "traceWindow ?sm' = w" using Cons.prems(2) by simp
      have "\<forall>m. m < 2 ^ 53 \<longrightarrow> \<not> js_less (ms m) (nextTraceStart ?sm') \<longrightarrow> k + g \<le> m"
        using step_blocks [OF good g k(1)] Cons.prems(2) by simp
      from Cons.IH [OF ks w' this x] have "k + g \<le> x" .
      with Lk g show ?thesis by linarith
    qed
  qed
qed

lemma sampled_spaced:
  assumes good: "w = PInf \<or> (\<exists>w0. w = Fin w0 \<and> of_int (min g (2 ^ 53)) \<le> w0)"
    and g: "1 \<le> g"
  shows "\<forall>k \<in> set ks. 0 \<le> k \<and> k < 2 ^ 53 \<Longrightarrow> traceWindow sm = w
     \<Longrightarrow> sorted_wrt (\<lambda>a b. a + g \<le> b) (sampled (Obj sm) ks)"
proof (induction ks arbitrary: sm)
  case Nil
  show ?case by simp
next
  case (Cons k ks)
  from Cons.prems(1) have k: "0 \<le> k" "k < 2 ^ 53"
    and ks: "\<forall>k \<in> set ks. 0 \<le> k \<and> k < 2 ^ 53" by simp_all
  show ?case
  proof (cases "js_less (ms k) (nextTraceStart sm)")
    case True
    with Cons.IH [OF ks Cons.prems(2)] show ?thesis
      by (simp add: sampled_Obj_step del: sampled.simps)
  next
    case False
    let ?sm' = "sm\<lparr>nextTraceStart := js_add (ms k) (traceWindow sm)\<rparr>"
    have w': "traceWindow ?sm' = w" using Cons.prems(2) by simp
    have blocks: "\<forall>m. m < 2 ^ 53 \<longrightarrow> \<not> js_less (ms m) (nextTraceStart ?sm') \<longrightarrow> k + g \<le> m"
      using step_blocks [OF good g k(1)] Cons.prems(2) by simp
    have "\<forall>y \<in> set (sampled (Obj ?sm') ks). k + g \<le> y"
      using sampled_lower [OF good g ks w' blocks] by blast
    moreover have "sorted_wrt (\<lambda>a b. a + g \<le> b) (sampled (Obj ?sm') ks)"
      using Cons.IH [OF ks w'] .
    ultimately show ?thesis using False
      by (simp add: sampled_Obj_step del: sampled.simps)
  qed
qed

lemma spaced_length:
  fixes w :: rat
  shows "sorted_wrt (\<lambda>x y. x + w \<le> y) xs \<Longrightarrow> \<forall>x \<in> set xs. a \<le> x \<and> x \<le> b \<Longrightarrow> xs \<noteq> []
     \<Longrightarrow> of_nat (length xs - 1) * w \<le> b - a"
proof (induction xs arbitrary: a)
  case Nil
  then show ?case by simp
next
  case (Cons x xs)
  show ?case
  proof (cases "xs = []")
    case True
    with Cons.prems show ?thesis by simp
  next
    case False
    from Cons.prems have "\<forall>y \<in> set xs. x + w \<le> y \<and> y \<le> b" by simp
    moreover from Cons.prems have "sorted_wrt (\<lambda>x y. x + w \<le> y) xs" by simp
    ultimately have "of_nat (length xs - 1) * w \<le> b - (x + w)"
      using Cons.IH [of "x + w"] False by blast
    moreover from False
    have "of_nat (length (x # xs) - 1) * w = of_nat (length xs - 1) * w + w"
      by (cases xs) (simp_all add: distrib_right)
    moreover from Cons.prems have "a \<le> x" by simp
    ultimately show ?thesis by linarith
  qed
qed

lemma spaced_count:
  fixes a b :: rat
  assumes sp: "sorted_wrt (\<lambda>x y. x + g \<le> y) (ks :: int list)" and g: "1 \<le> g" and ab: "a \<le> b"
  shows "length (filter (\<lambda>k. a \<le> of_int k \<and> of_int k \<le> b) ks) \<le> nat \<lfloor>(b - a) / of_int g\<rfloor> + 1"
proof -
  define xs where "xs = filter (\<lambda>k. a \<le> of_int k \<and> of_int k \<le> b) ks"
  define ys :: "rat list" where "ys = map of_int xs"
  show ?thesis
  proof (cases "xs = []")
    case True
    then show ?thesis by (simp add: xs_def)
  next
    case False
    from sp have "sorted_wrt (\<lambda>x y. x + g \<le> y) xs"
      unfolding xs_def by (rule sorted_wrt_filter)
    then have "sorted_wrt (\<lambda>x y. (of_int x :: rat) + of_int g \<le> of_int y) xs"
      by (rule sorted_wrt_mono_rel [rotated]) (simp only: of_int_add [symmetric] of_int_le_iff)
    then have s: "sorted_wrt (\<lambda>x y. x + of_int g \<le> y) ys"
      by (simp add: ys_def sorted_wrt_map)
    have inwin: "\<forall>x \<in> set ys. a \<le> x \<and> x \<le> b" by (auto simp: ys_def xs_def)
    from False have ne: "ys \<noteq> []" by (simp add: ys_def)
    define n :: rat where "n = of_nat (length xs - 1)"
    from spaced_length [OF s inwin ne] have "n * of_int g \<le> b - a"
      by (simp add: n_def ys_def)
    moreover from g have gp: "(0::rat) < of_int g" by simp
    ultimately have "n \<le> (b - a) / of_int g"
      by (simp add: pos_le_divide_eq)
    then have "(of_int (int (length xs - 1)) :: rat) \<le> (b - a) / of_int g"
      by (simp only: n_def of_int_of_nat_eq)
    then have "int (length xs - 1) \<le> \<lfloor>(b - a) / of_int g\<rfloor>"
      by (simp only: le_floor_iff)
    then show ?thesis unfolding xs_def [symmetric] by linarith
  qed
qed

text \<open>
  C5 (as the code has it). Let the sampling rate be a finite \<open>R > 0\<close>, let the decision
  timestamps \<open>ks\<close> be whole milliseconds in \<open>[0, 2\<^sup>5\<^sup>3)\<close> (as \<^verbatim>\<open>Date.now()\<close> yields them), in
  any order, and let \<open>g = \<lfloor>1000 / min(R, 1000)\<rfloor>\<close>. Then any two \<^verbatim>\<open>true\<close> decisions are at
  least \<open>g\<close> milliseconds apart, so a closed window \<open>[a, a + 1000 T]\<close> of \<open>T \<ge> 0\<close> seconds
  holds at most \<open>\<lfloor>1000 T / g\<rfloor> + 1\<close> of them; this is at most \<open>\<lceil>R T\<rceil> + 1\<close> whenever
  \<open>1000 / min(R, 1000)\<close> is a whole number (in particular for every \<open>R \<ge> 1000\<close>).
\<close>

theorem C5_rate_bound:
  assumes rate: "samplingRate config = Fin r" and r: "0 < r" and T: "0 \<le> T"
    and ks: "\<forall>k \<in> set ks. 0 \<le> k \<and> k < 2 ^ 53"
    and g: "g = \<lfloor>1000 / min r 1000\<rfloor>"
  shows "sorted_wrt (\<lambda>k m. k + g \<le> m)
           (sampled (sampler (TracePolicy_new now METHODS config)) ks)
       \<and> length (filter (\<lambda>k. a \<le> of_int k \<and> of_int k \<le> a + 1000 * T)
                   (sampled (sampler (TracePolicy_new now METHODS config)) ks))
           \<le> nat \<lfloor>1000 * T / of_int g\<rfloor> + 1
       \<and> (1000 / min r 1000 = of_int g \<longrightarrow>
            length (filter (\<lambda>k. a \<le> of_int k \<and> of_int k \<le> a + 1000 * T)
                     (sampled (sampler (TracePolicy_new now METHODS config)) ks))
              \<le> nat \<lceil>r * T\<rceil> + 1)"
proof -
  define r' where "r' = min r 1000"
  define sm where "sm = Sampler_new now (Fin r)"
  define w where "w = js_div (Fin 1000) (Fin r')"
  from r have r': "0 < r'" "r' \<le> 1000" "r' \<le> r" by (simp_all add: r'_def)
  have start: "sampler (TracePolicy_new now METHODS config) = Obj sm"
    using r rate by (simp add: TracePolicy_new_def sm_def)
  have tw: "traceWindow sm = w"
    by (simp add: sm_def w_def Sampler_new_def r'_def min_def)
  from r' have "1 \<le> 1000 / r'" by (simp add: pos_le_divide_eq)
  then have g1: "1 \<le> g" by (simp add: g r'_def [symmetric] le_floor_iff)
  have good: "w = PInf \<or> (\<exists>w0. w = Fin w0 \<and> of_int (min g (2 ^ 53)) \<le> w0)"
    unfolding w_def g r'_def [symmetric] using r'(1,2) by (rule window_good)
  have sp: "sorted_wrt (\<lambda>k m. k + g \<le> m) (sampled (Obj sm) ks)"
    using good g1 ks tw by (rule sampled_spaced)
  from T have ab: "a \<le> a + 1000 * T" by simp
  from spaced_count [OF sp g1 ab]
  have cnt: "length (filter (\<lambda>k. a \<le> of_int k \<and> of_int k \<le> a + 1000 * T) (sampled (Obj sm) ks))
      \<le> nat \<lfloor>1000 * T / of_int g\<rfloor> + 1"
    by simp
  have "nat \<lfloor>1000 * T / of_int g\<rfloor> \<le> nat \<lceil>r * T\<rceil>" if eq: "1000 / min r 1000 = of_int g"
  proof -
    from eq r'(1) have "of_int g * r' = 1000" by (simp add: r'_def [symmetric] field_simps)
    moreover from g1 have gp: "(0::rat) < of_int g" by simp
    ultimately have "1000 * T / of_int g = r' * T"
      by (simp add: field_simps)
    also from r'(3) T have "\<dots> \<le> r * T" by (rule mult_right_mono)
    finally have "1000 * T / of_int g \<le> r * T" .
    then have "\<lfloor>1000 * T / of_int g\<rfloor> \<le> \<lceil>r * T\<rceil>"
      by (meson floor_le_ceiling floor_mono order_trans)
    then show ?thesis by simp
  qed
  with cnt sp show ?thesis unfolding start by auto
qed

text \<open>
  Rate 4 and a window of half a second starting at 0: the decisions at 0, 250 and 500
  are the ones taken inside the window, \<open>g = 250\<close>, and both bounds are 3.
\<close>

theorem C5_rate_bound_witness:
  "length (filter (\<lambda>k. (0 :: rat) \<le> of_int k \<and> (of_int k :: rat) \<le> 0 + 1000 * (1 / 2))
      (sampled (sampler (TracePolicy_new (ms 0) [] (rate_config 4)))
        [0, 100, 250, 300, 499, 500, 400, 800])) = 3
   \<and> nat \<lfloor>1000 * (1 / 2) / (of_int 250 :: rat)\<rfloor> + 1 = 3
   \<and> nat \<lceil>(4 :: rat) * (1 / 2)\<rceil> + 1 = 3"
proof -
  let ?ks = "[0, 100, 250, 300, 499, 500, 400, 800] :: int list"
  have rate: "samplingRate (rate_config 4) = Fin 4" by (simp add: rate_config_def)
  have r: "(0 :: rat) < 4" and T: "(0 :: rat) \<le> 1 / 2" by simp_all
  have ks: "\<forall>k \<in> set ?ks. 0 \<le> k \<and> k < 2 ^ 53" by simp
  have g: "(250 :: int) = \<lfloor>1000 / min (4 :: rat) 1000\<rfloor>" by simp
  have rv: "round64 250 = Fin 250" "round64 500 = Fin 500" "round64 750 = Fin 750"
    "round64 1050 = Fin 1050" by code_simp+
  have run: "sampled (sampler (TracePolicy_new (ms 0) [] (rate_config 4))) ?ks
      = [0, 250, 500, 800]"
    by (simp add: TracePolicy_new_def Sampler_new_def sampler_shouldTrace_def
        Sampler_shouldTrace_def rate_config_def ms_def rv)
  have three: "3 \<le> length (filter (\<lambda>k. (0 :: rat) \<le> of_int k \<and> (of_int k :: rat) \<le> 0 + 1000 * (1 / 2))
      (sampled (sampler (TracePolicy_new (ms 0) [] (rate_config 4))) ?ks))"
    unfolding run by simp
  have eq: "1000 / min (4 :: rat) 1000 = of_int 250" by simp
  from C5_rate_bound [OF rate r T ks g, of "ms 0" "[]" 0] eq three
  show ?thesis by simp
qed

lemma sampled_upto_all:
  assumes w: "1 \<le> w" "w < 1 + 1 / 8192"
  shows "traceWindow sm = Fin w \<Longrightarrow> nextTraceStart sm = Fin v \<Longrightarrow> v \<le> of_int a
     \<Longrightarrow> 2 ^ 40 \<le> a \<Longrightarrow> b + 2 \<le> 2 ^ 41 \<Longrightarrow> sampled (Obj sm) [a..b] = [a..b]"
proof (induction a b arbitrary: sm v rule: upto.induct)
  case (1 i j)
  show ?case
  proof (cases "i \<le> j")
    case False
    then show ?thesis by simp
  next
    case True
    let ?sm' = "sm\<lparr>nextTraceStart := js_add (ms i) (traceWindow sm)\<rparr>"
    from True "1.prems"(5) have "i + 2 \<le> 2 ^ 41" by linarith
    with "1.prems"(4) w have rd: "round64 (of_int i + w) = Fin (of_int i + 1)"
      by (intro round64_binade40)
    have nts: "nextTraceStart ?sm' = Fin (of_int i + 1)"
      using "1.prems"(1) rd by (simp add: ms_def)
    have tw: "traceWindow ?sm' = Fin w" using "1.prems"(1) by simp
    have le: "(of_int i + 1 :: rat) \<le> of_int (i + 1)" by simp
    from "1.prems"(4) have lo: "2 ^ 40 \<le> i + 1" by linarith
    from "1.IH" [OF True tw nts le lo "1.prems"(5)]
    have "sampled (Obj ?sm') [i + 1..j] = [i + 1..j]" .
    moreover from "1.prems"(2,3) have "\<not> js_less (ms i) (nextTraceStart sm)"
      by (simp add: ms_def)
    moreover from True have "[i..j] = i # [i + 1..j]" by (rule upto_rec1)
    ultimately show ?thesis
      by (simp add: sampled_Obj_step del: sampled.simps)
  qed
qed

text \<open>
  The bound \<open>\<lceil>R T\<rceil> + 1\<close> fails for the rate \<^verbatim>\<open>999.9\<close>: constructed at
  \<^verbatim>\<open>1700000000000\<close> and asked once every millisecond for ten seconds, the sampler answers
  \<^verbatim>\<open>true\<close> each of the 10001 times, while \<open>\<lceil>999.9 \<cdot> 10\<rceil> + 1 = 10000\<close>. (Each watermark
  \<open>t + 1.0001...\<close> is rounded to \<open>t + 1\<close>, as the spacing of binary64 numbers near \<open>t\<close>
  is \<open>2\<^sup>-\<^sup>1\<^sup>2\<close>.)
\<close>

theorem C5_ceiling_bound_counterexample:
  "sampled (sampler (TracePolicy_new (ms 1700000000000) [] (rate_config rate_999_9)))
       [1700000000000..1700000010000]
     = [1700000000000..1700000010000]
   \<and> length (filter (\<lambda>k. (1700000000000 :: rat) \<le> of_int k
                        \<and> (of_int k :: rat) \<le> 1700000000000 + 1000 * 10)
        (sampled (sampler (TracePolicy_new (ms 1700000000000) [] (rate_config rate_999_9)))
           [1700000000000..1700000010000])) = 10001
   \<and> nat \<lceil>rate_999_9 * 10\<rceil> + 1 = 10000"
proof -
  define ks where "ks = [1700000000000..1700000010000]"
  define sm where "sm = \<lparr>traceWindow = Fin (4504050032373733 / 4503599627370496),
    nextTraceStart = ms 1700000000000\<rparr>"
  have pos: "0 < rate_999_9" "rate_999_9 \<le> 1000" "rate_999_9 \<noteq> 0"
    by (simp_all add: rate_999_9_def)
  have start: "sampler (TracePolicy_new (ms 1700000000000) [] (rate_config rate_999_9)) = Obj sm"
    using pos by (simp add: TracePolicy_new_def Sampler_new_def rate_config_def sm_def
        round64_values)
  have tw: "traceWindow sm = Fin (4504050032373733 / 4503599627370496)"
    and nts: "nextTraceStart sm = Fin 1700000000000"
    by (simp_all add: sm_def ms_def)
  have "sampled (Obj sm) [1700000000000..1700000010000] = [1700000000000..1700000010000]"
    using _ _ tw nts
    by (rule sampled_upto_all) simp_all
  then have A: "sampled (sampler (TracePolicy_new (ms 1700000000000) [] (rate_config rate_999_9))) ks
      = ks"
    by (simp only: start ks_def)
  have "\<forall>k \<in> set ks. (1700000000000 :: rat) \<le> of_int k
      \<and> (of_int k :: rat) \<le> 1700000000000 + 1000 * 10"
  proof
    fix k :: int assume "k \<in> set ks"
    then have "1700000000000 \<le> k \<and> k \<le> 1700000010000"
      by (simp only: ks_def set_upto atLeastAtMost_iff)
    then have "(of_int 1700000000000 :: rat) \<le> of_int k"
      and "(of_int k :: rat) \<le> of_int 1700000010000"
      by (simp_all only: of_int_le_iff)
    then show "(1700000000000 :: rat) \<le> of_int k \<and> (of_int k :: rat) \<le> 1700000000000 + 1000 * 10"
      by simp
  qed
  then have F: "filter (\<lambda>k. (1700000000000 :: rat) \<le> of_int k
                        \<and> (of_int k :: rat) \<le> 1700000000000 + 1000 * 10) ks = ks"
    by (simp only: filter_True)
  have "length ks = nat (1700000010000 - 1700000000000 + 1)"
    by (simp only: ks_def length_upto)
  then have L: "length ks = 10001" by simp
  have B: "length (filter (\<lambda>k. (1700000000000 :: rat) \<le> of_int k
                        \<and> (of_int k :: rat) \<le> 1700000000000 + 1000 * 10)
        (sampled (sampler (TracePolicy_new (ms 1700000000000) [] (rate_config rate_999_9))) ks))
      = 10001"
    by (simp only: A F L)
  have "\<lceil>rate_999_9 * 10\<rceil> = 9999"
    unfolding rate_999_9_def by (simp add: ceiling_unique)
  then have C: "nat \<lceil>rate_999_9 * 10\<rceil> + 1 = 10000" by simp
  from A B C show ?thesis unfolding ks_def by (intro conjI)
qed

subsection \<open>Construction and method filter\<close>

text \<open>
  C6 (as the code has it). Constructing a policy never throws and never logs, whatever
  the configuration; a sampling rate above 1000 is replaced by 1000 without a trace, the
  resulting policy being the one constructed for the rate 1000.
\<close>

theorem C6_construct_silent:
  "\<not> rejected_loudly (TracePolicy_construct now METHODS config)
   \<and> (\<exists>policy. TracePolicy_construct now METHODS config = Inr ([], policy)
        \<and> (js_less (Fin 1000) (samplingRate config) \<longrightarrow>
             sampler policy = Obj \<lparr>traceWindow = Fin 1, nextTraceStart = now\<rparr>
           \<and> policy = TracePolicy_new now METHODS (config\<lparr>samplingRate := Fin 1000\<rparr>)))"
proof -
  have "sampler (TracePolicy_new now METHODS config)
          = Obj \<lparr>traceWindow = Fin 1, nextTraceStart = now\<rparr>
      \<and> TracePolicy_new now METHODS config
          = TracePolicy_new now METHODS (config\<lparr>samplingRate := Fin 1000\<rparr>)"
    if big: "js_less (Fin 1000) (samplingRate config)"
  proof -
    from big have "\<not> js_eq (samplingRate config) (Fin 0)"
      and "\<not> js_less (samplingRate config) (Fin 0)"
      by (cases "samplingRate config"; simp)+
    with big show ?thesis
      by (simp add: TracePolicy_new_def Sampler_new_def round64_values)
  qed
  moreover have "\<not> rejected_loudly (TracePolicy_construct now METHODS config)"
    by (simp add: rejected_loudly_def TracePolicy_construct_def)
  moreover have "TracePolicy_construct now METHODS config
      = Inr ([], TracePolicy_new now METHODS config)"
    by (simp add: TracePolicy_construct_def)
  ultimately show ?thesis by blast
qed

text \<open>The rate 2000, constructed at time 0: the window is that of the rate 1000.\<close>

theorem C6_construct_silent_witness:
  "TracePolicy_construct (Fin 0) [] (rate_config 2000)
   = Inr ([], \<lparr>sampler = Obj \<lparr>traceWindow = Fin 1, nextTraceStart = Fin 0\<rparr>,
               urlFilter = Const True, methodFilter = Const True\<rparr>)"
proof -
  have "js_less (Fin 1000) (samplingRate (rate_config 2000))"
    by (simp add: rate_config_def)
  with C6_construct_silent [of "Fin 0" "[]" "rate_config 2000"]
  obtain policy where "TracePolicy_construct (Fin 0) [] (rate_config 2000) = Inr ([], policy)"
    and "policy = TracePolicy_new (Fin 0) [] ((rate_config 2000)\<lparr>samplingRate := Fin 1000\<rparr>)"
    by blast
  then show ?thesis
    by (simp add: TracePolicy_new_def Sampler_new_def rate_config_def round64_values)
qed

text \<open>
  The claim as worded fails for the rate 2000: the construction neither throws nor logs,
  and its result is the result for the rate 1000.
\<close>

theorem C6_loud_rejection_counterexample:
  "\<not> rejected_loudly (TracePolicy_construct (Fin 0) [] (rate_config 2000))
   \<and> TracePolicy_construct (Fin 0) [] (rate_config 2000)
     = TracePolicy_construct (Fin 0) [] (rate_config 1000)"
  by (simp add: rejected_loudly_def TracePolicy_construct_def TracePolicy_new_def Sampler_new_def
      rate_config_def)

text \<open>
  C9. Whatever the deny list (and whatever verbs the runtime knows), the method filter
  lets a request pass whose method is missing or is the empty string; so does the
  method filter of any policy, whose deny list may also be empty.
\<close>

theorem C9_no_method_is_traced:
  "HTTPMethodFilter_shouldTrace (HTTPMethodFilter_new METHODS methods) None
   \<and> HTTPMethodFilter_shouldTrace (HTTPMethodFilter_new METHODS methods) (Some '''')
   \<and> methodFilter_shouldTrace (methodFilter (TracePolicy_new now METHODS config)) None
   \<and> methodFilter_shouldTrace (methodFilter (TracePolicy_new now METHODS config)) (Some '''')"
  by (simp add: HTTPMethodFilter_shouldTrace_def methodFilter_shouldTrace_def TracePolicy_new_def)

text \<open>
  A filter that denies GET and POST: no method and the empty method pass, POST does not.
\<close>

theorem C9_no_method_is_traced_witness:
  "HTTPMethodFilter_shouldTrace (HTTPMethodFilter_new [''GET'', ''POST''] [''get'', ''Post'']) None
   \<and> HTTPMethodFilter_shouldTrace (HTTPMethodFilter_new [''GET'', ''POST''] [''get'', ''Post''])
        (Some '''')
   \<and> \<not> HTTPMethodFilter_shouldTrace (HTTPMethodFilter_new [''GET'', ''POST''] [''get'', ''Post''])
        (Some ''POST'')"
proof -
  have "\<not> HTTPMethodFilter_shouldTrace (HTTPMethodFilter_new [''GET'', ''POST''] [''get'', ''Post''])
        (Some ''POST'')"
    by code_simp
  with C9_no_method_is_traced [of "[''GET'', ''POST'']" "[''get'', ''Post'']"]
  show ?thesis by blast
qed

section \<open>Theorems: trace writer\<close>







lemma queueTrace_lib_resolved:
  assumes "fst (getProjectNumber_lib metadata w) = Inr p"
  shows "writer_buffer (queueTrace_lib metadata tr w)
           = writer_buffer w @ [tr\<lparr>trace_project_id := Some p\<rparr>]"
  using assms
  by (auto simp add: queueTrace_lib_def getProjectNumber_lib_def logger_def Let_def
      split: sum.splits if_splits)

lemma queueTrace_part000_resolved:
  assumes "fst (getProjectNumber_part000 metadata w) = Inr p"
  shows "writer_buffer (queueTrace_part000 metadata tr w)
           = (if int (length (writer_buffer w)) \<le> bufferSize (writer_config w)
              then writer_buffer w @ [tr\<lparr>trace_projectId := Some p\<rparr>]
              else writer_buffer w)"
    and "logged (queueTrace_part000 metadata tr w)
           = (if int (length (writer_buffer w)) \<le> bufferSize (writer_config w)
              then logged w @ [(''info'', ''queued trace. new size:'',
                                Some (Suc (length (writer_buffer w))))]
              else logged w)"
  using assms
  by (auto simp add: queueTrace_part000_def getProjectNumber_part000_def logger_def Let_def
      split: sum.splits if_splits)

lemma queueTrace_unresolved:
  assumes "\<not> truthy (projectId (writer_config w))"
  shows "queueTrace_lib (Inl err) tr w
           = w\<lparr>logged := logged w @ [(''info'', ''No project number, dropping trace.'', None)]\<rparr>"
    and "queueTrace_part000 (Inl err) tr w = w"
  using assms
  by (simp_all add: queueTrace_lib_def queueTrace_part000_def getProjectNumber_lib_def
      getProjectNumber_part000_def logger_def)







text \<open>
  With a module version and a minor version but neither a module name nor a host name,
  the version label begins with the text \<^verbatim>\<open>undefined:\<close>.
\<close>

lemma add_writer_labels_undefined_module:
  "labels (spans (trace (add_writer_labels example_labels ''1.0''
       ((writer_config example_writer)\<lparr>gae_module_version := Some ''v1'',
                                        gae_minor_version := Some ''2''\<rparr>)
       example_spanData)) ! 0) ''version'' = Some ''undefined:v1.2''"
  by (simp add: add_writer_labels_def addLabel_def setLabel_def truthy_def js_string_def
      example_spanData_def example_trace_def example_writer_def example_labels_def)


lemmas example_defs = example_trace_def example_spanData_def example_writer_def
  example_labels_def example_writer_no_project_def example_writer_full_def

lemmas writer_defs = writeSpan_lib_def writeSpan_part000_def queueTrace_lib_def
  queueTrace_part000_def getProjectNumber_lib_def getProjectNumber_part000_def logger_def
  truthy_def js_string_def add_writer_labels_def addLabel_def setLabel_def isClosed_def
  close_def




text \<open>
  C8 (as the code has it). When no project is configured and the metadata lookup fails,
  \<open>queueTrace_\<close> does not buffer the trace, whatever the buffer's length: the lib
  edition logs \<^verbatim>\<open>No project number, dropping trace.\<close> and changes nothing else, the
  part_000 edition changes nothing at all. When the project resolves, the lib edition
  appends the trace whatever the buffer's length, and the part_000 edition appends and
  logs while the buffer holds at most \<open>bufferSize\<close> traces and otherwise leaves buffer
  and log as they are.
\<close>

theorem C8_queueTrace_without_project:
  "(\<not> truthy (projectId (writer_config w)) \<longrightarrow>
       queueTrace_lib (Inl err) tr w
         = w\<lparr>logged := logged w @ [(''info'', ''No project number, dropping trace.'', None)]\<rparr>
     \<and> queueTrace_part000 (Inl err) tr w = w)
   \<and> (fst (getProjectNumber_lib metadata w) = Inr p \<longrightarrow>
       writer_buffer (queueTrace_lib metadata tr w)
         = writer_buffer w @ [tr\<lparr>trace_project_id := Some p\<rparr>])
   \<and> (fst (getProjectNumber_part000 metadata w) = Inr p \<longrightarrow>
       writer_buffer (queueTrace_part000 metadata tr w)
         = (if int (length (writer_buffer w)) \<le> bufferSize (writer_config w)
            then writer_buffer w @ [tr\<lparr>trace_projectId := Some p\<rparr>]
            else writer_buffer w)
     \<and> logged (queueTrace_part000 metadata tr w)
         = (if int (length (writer_buffer w)) \<le> bufferSize (writer_config w)
            then logged w @ [(''info'', ''queued trace. new size:'',
                              Some (Suc (length (writer_buffer w))))]
            else logged w))"
  using queueTrace_unresolved [of w err tr] queueTrace_lib_resolved [of metadata w p tr]
    queueTrace_part000_resolved [of metadata w p tr]
  by blast

text \<open>The example writer without a project, asked to queue the example trace.\<close>

theorem C8_queueTrace_without_project_witness:
  "writer_buffer (queueTrace_lib (Inl ''ENOTFOUND'') example_trace example_writer_no_project) = []
   \<and> logged (queueTrace_lib (Inl ''ENOTFOUND'') example_trace example_writer_no_project)
       = [(''info'', ''No project number, dropping trace.'', None)]
   \<and> queueTrace_part000 (Inl ''ENOTFOUND'') example_trace example_writer_no_project
       = example_writer_no_project"
proof -
  have unset: "\<not> truthy (projectId (writer_config example_writer_no_project))"
    by (simp add: truthy_def example_writer_no_project_def)
  from C8_queueTrace_without_project [of example_writer_no_project "''ENOTFOUND''" example_trace]
    unset
  have lib: "queueTrace_lib (Inl ''ENOTFOUND'') example_trace example_writer_no_project
         = example_writer_no_project\<lparr>logged := logged example_writer_no_project
              @ [(''info'', ''No project number, dropping trace.'', None)]\<rparr>"
    and part000: "queueTrace_part000 (Inl ''ENOTFOUND'') example_trace example_writer_no_project
         = example_writer_no_project"
    by blast+
  have "writer_buffer example_writer_no_project = []"
    and "logged example_writer_no_project = []"
    by (simp_all add: example_writer_no_project_def example_writer_def)
  with lib part000 show ?thesis by simp
qed

text \<open>
  The claim as worded says the trace is retained while the buffer is below capacity.
  The buffer is empty and the capacity is 1000, yet after the failed lookup the buffer
  of either edition is still empty.
\<close>

theorem C8_not_retained_counterexample:
  "length (writer_buffer example_writer_no_project) = 0
   \<and> bufferSize (writer_config example_writer_no_project) = 1000
   \<and> writer_buffer (queueTrace_lib (Inl ''ENOTFOUND'') example_trace example_writer_no_project)
       = []
   \<and> writer_buffer (queueTrace_part000 (Inl ''ENOTFOUND'') example_trace
        example_writer_no_project) = []
   \<and> logged (queueTrace_part000 (Inl ''ENOTFOUND'') example_trace example_writer_no_project)
       = []"
  by (simp add: example_defs writer_defs)

end
